theory Spec2Isabelle
  imports Complex_Main "HOL-Library.Word"
begin

section \<open>The on-disk data of Project4.c\<close>

text \<open>
  The checker of \<^verbatim>\<open>Project4.c\<close> reads a memory-mapped xv6 file-system image through
  typed pointers. Unsigned integers (\<^verbatim>\<open>uint\<close>) are 32-bit words and the inode number
  of a directory entry (\<^verbatim>\<open>ushort\<close>) is a 16-bit word. Inode numbers that come from a loop
  counter are natural numbers; reference counts (\<^verbatim>\<open>int inmap[]\<close>) are integers without a
  bound.
\<close>

type_synonym u32 = "32 word"
type_synonym u16 = "16 word"

text \<open>
  Modelled from the spec: the type tags \<^verbatim>\<open>T_DIR\<close>, \<^verbatim>\<open>T_FILE\<close>, \<^verbatim>\<open>T_DEV\<close> are declared in
  the headers \<^verbatim>\<open>fs.h\<close> / \<^verbatim>\<open>types.h\<close>, which are not part of the sources. The spec gives
  the type of an inode as one of Free, File, Directory, Device, anything else being a bad
  type; the code tests freeness as \<^verbatim>\<open>type == 0\<close>. \<open>T_OTHER\<close> stands for every other
  value of the field.
\<close>

datatype itype = T_FREE | T_DIR | T_FILE | T_DEV | T_OTHER

text \<open>
  \<^verbatim>\<open>struct dinode\<close>: \<open>addrs\<close> holds the direct slots \<^verbatim>\<open>addrs[0 .. NDIRECT-1]\<close> (so
  \<^verbatim>\<open>NDIRECT\<close> is its length) and \<open>addrs_NDIRECT\<close> is the indirect slot
  \<^verbatim>\<open>addrs[NDIRECT]\<close>. \<open>nlink\<close> is the value of the field as \<^verbatim>\<open>chk_ref_cnt\<close> compares it
  with an \<^verbatim>\<open>int\<close>.
\<close>

record dinode =
  type :: itype
  nlink :: int
  addrs :: "u32 list"
  addrs_NDIRECT :: u32

text \<open>
  \<^verbatim>\<open>struct dirent\<close>: \<open>name\<close> is the string that \<^verbatim>\<open>strcmp\<close> reads at the name field,
  that is the bytes up to the first NUL.
\<close>

record dirent =
  inum :: u16
  name :: string

record superblock =
  size' :: u32
  nblocks :: u32
  ninodes :: u32

text \<open>
  \<^verbatim>\<open>img_t\<close>. The three counters are computed by \<open>init_img\<close>. The pointers into the
  mapping are modelled by what the code reads through them:
  \<^item> \<open>inodeblks i\<close> is \<^verbatim>\<open>((struct dinode *) img->inodeblks)[i]\<close>;
  \<^item> \<open>bitmapblks a\<close> is \<^verbatim>\<open>CHK_BIT(img->bitmapblks, a)\<close> read as a truth value;
  \<^item> \<open>map_uints a\<close> is the \<^verbatim>\<open>NINDIRECT\<close> words at \<^verbatim>\<open>img->map + a * BLK_SZ\<close>;
  \<^item> \<open>map_dirents a\<close> is the \<^verbatim>\<open>DPB\<close> directory entries at \<^verbatim>\<open>img->map + a * BLK_SZ\<close>.
  Reads of the mapping are total here: the length of the mapping is not modelled, and
  the four views are independent functions (the theorems hold for every choice of them,
  so also for the views of one byte image). The scratch arrays the checker allocates are
  lists, and an access outside of one of them is the outcome \<open>OutOfBounds\<close>. The image is
  never written, so a \<^verbatim>\<open>struct dinode *\<close> argument is modelled by the inode it points to.
\<close>

record img_t =
  ninodeblks :: u32
  nbitmapblks :: u32
  firstblk :: u32
  sb :: superblock
  inodeblks :: "nat \<Rightarrow> dinode"
  bitmapblks :: "u32 \<Rightarrow> bool"
  map_uints :: "u32 \<Rightarrow> u32 list"
  map_dirents :: "u32 \<Rightarrow> dirent list"

section \<open>Outcomes\<close>

text \<open>
  One constructor for each message the program prints before \<^verbatim>\<open>exit(1)\<close>:
  \<^item> \<open>BadInodeType\<close>: "bad inode."
  \<^item> \<open>BadDirectAddress\<close>: "bad direct address in inode."
  \<^item> \<open>BadIndirectAddress\<close>: "bad indirect address in inode."
  \<^item> \<open>MalformedDirectory\<close>: "directory not properly formatted."
  \<^item> \<open>MissingRoot\<close>: "root directory does not exist."
  \<^item> \<open>AddressNotInBitmap\<close>: "address used by inode but marked free in bitmap."
  \<^item> \<open>BitmapBlockNotInUse\<close>: "bitmap marks block in use but it is not in use."
  \<^item> \<open>DuplicateBlockUse t\<close>: "t address used more than once."
  \<^item> \<open>InodeNotInAnyDirectory\<close>: "inode marked use but not found in a directory."
  \<^item> \<open>DanglingDirectoryReference\<close>: "inode referred to in directory but marked free."
  \<^item> \<open>BadLinkCount\<close>: "bad reference count for file."
  \<^item> \<open>DirectoryHardLinked\<close>: "directory appears more than once in file system."
\<close>

datatype error =
    BadInodeType
  | BadDirectAddress
  | BadIndirectAddress
  | MalformedDirectory
  | MissingRoot
  | AddressNotInBitmap
  | BitmapBlockNotInUse
  | DuplicateBlockUse string
  | InodeNotInAnyDirectory
  | DanglingDirectoryReference
  | BadLinkCount
  | DirectoryHardLinked

text \<open>
  A function stops either by \<^verbatim>\<open>exit(1)\<close> after a message, or by an access outside of a
  scratch array (undefined behaviour in C). \<open>Inr\<close> is the normal return.
\<close>

datatype stop = Exit error | OutOfBounds

type_synonym 'a result = "stop + 'a"

text \<open>A \<^verbatim>\<open>for\<close> loop over the elements of an array, threading the state it mutates.\<close>

fun for_each :: "('a \<Rightarrow> 's \<Rightarrow> 's result) \<Rightarrow> 'a list \<Rightarrow> 's \<Rightarrow> 's result" where
  "for_each body [] s = Inr s"
| "for_each body (x # xs) s =
     (case body x s of Inl e \<Rightarrow> Inl e | Inr s' \<Rightarrow> for_each body xs s')"

section \<open>Layout\<close>

text \<open>
  \<^verbatim>\<open>init_img\<close>. \<^verbatim>\<open>IPB\<close> (inodes per block) and \<^verbatim>\<open>BPB\<close> (bitmap bits per block) are
  macros of the missing header \<^verbatim>\<open>fs.h\<close> and are parameters here. The arithmetic is that
  of \<^verbatim>\<open>uint\<close>.
\<close>

definition init_img :: "u32 \<Rightarrow> u32 \<Rightarrow> img_t \<Rightarrow> img_t" where
  "init_img IPB BPB img =
     (let nib = (ninodes (sb img) div IPB) + 1;
          nbb = (size' (sb img) div BPB) + 1
      in img\<lparr>ninodeblks := nib, nbitmapblks := nbb, firstblk := nib + nbb + 2\<rparr>)"

section \<open>Address validation\<close>

definition valid_addr :: "img_t \<Rightarrow> u32 \<Rightarrow> bool" where
  "valid_addr img addr \<longleftrightarrow> addr > 0 \<and> addr < size' (sb img)"

definition check_direct_body :: "img_t \<Rightarrow> u32 \<Rightarrow> unit \<Rightarrow> unit result" where
  "check_direct_body img addr u =
     (if addr = 0 then Inr ()
      else if \<not> valid_addr img addr then Inl (Exit BadDirectAddress)
      else Inr ())"

definition check_direct :: "img_t \<Rightarrow> dinode \<Rightarrow> unit result" where
  "check_direct img in' = for_each (check_direct_body img) (addrs in') ()"

definition check_indirect_body :: "img_t \<Rightarrow> u32 \<Rightarrow> unit \<Rightarrow> unit result" where
  "check_indirect_body img addr u =
     (if addr = 0 then Inr ()
      else if \<not> valid_addr img addr then Inl (Exit BadIndirectAddress)
      else Inr ())"

definition check_indirect :: "img_t \<Rightarrow> dinode \<Rightarrow> unit result" where
  "check_indirect img in' =
     (let addr = addrs_NDIRECT in' in
      if addr = 0 then Inr ()
      else if \<not> valid_addr img addr then Inl (Exit BadIndirectAddress)
      else for_each (check_indirect_body img) (map_uints img addr) ())"

section \<open>Directory well-formedness\<close>

text \<open>
  The body of the loop of \<^verbatim>\<open>process_entries\<close> on one directory entry. The state is the
  pair of flags \<^verbatim>\<open>(*dot, *ddot)\<close>; \<open>inum'\<close> is the \<^verbatim>\<open>int inum\<close> of the directory.
\<close>

definition process_entries_body :: "nat \<Rightarrow> dirent \<Rightarrow> bool \<times> bool \<Rightarrow> (bool \<times> bool) result" where
  "process_entries_body inum' de st =
     (case st of (dot, ddot) \<Rightarrow>
        if name de = ''.'' then
          (if unat (inum de) \<noteq> inum' then Inl (Exit MalformedDirectory) else Inr (True, ddot))
        else if name de = ''..'' then
          (if (inum' \<noteq> 1 \<and> unat (inum de) = inum') \<or> (inum' = 1 \<and> unat (inum de) \<noteq> inum')
           then Inl (Exit MissingRoot) else Inr (dot, True))
        else Inr (dot, ddot))"

text \<open>
  \<^verbatim>\<open>process_entries\<close> returns the flags; its boolean result \<^verbatim>\<open>*dot && *ddot\<close> is their
  conjunction.
\<close>

definition process_entries :: "img_t \<Rightarrow> u32 \<Rightarrow> nat \<Rightarrow> bool \<times> bool \<Rightarrow> (bool \<times> bool) result" where
  "process_entries img addr inum' st = for_each (process_entries_body inum') (map_dirents img addr) st"

text \<open>The loop of \<^verbatim>\<open>validate_dir\<close> over the direct slots, with its \<^verbatim>\<open>break\<close>.\<close>

fun validate_dir_loop :: "img_t \<Rightarrow> nat \<Rightarrow> u32 list \<Rightarrow> bool \<times> bool \<Rightarrow> (bool \<times> bool) result" where
  "validate_dir_loop img inum' [] st = Inr st"
| "validate_dir_loop img inum' (addr # rest) st =
     (if addr = 0 then validate_dir_loop img inum' rest st
      else case process_entries img addr inum' st of
             Inl e \<Rightarrow> Inl e
           | Inr st' \<Rightarrow> if fst st' \<and> snd st' then Inr st' else validate_dir_loop img inum' rest st')"

definition validate_dir :: "img_t \<Rightarrow> dinode \<Rightarrow> nat \<Rightarrow> unit result" where
  "validate_dir img in' inum' =
     (case validate_dir_loop img inum' (addrs in') (False, False) of
        Inl e \<Rightarrow> Inl e
      | Inr st \<Rightarrow> if \<not> fst st \<or> \<not> snd st then Inl (Exit MalformedDirectory) else Inr ())"

definition validate_type :: "dinode \<Rightarrow> unit result" where
  "validate_type in' =
     (case type in' of
        T_FILE \<Rightarrow> Inr ()
      | T_DIR \<Rightarrow> Inr ()
      | T_DEV \<Rightarrow> Inr ()
      | _ \<Rightarrow> Inl (Exit BadInodeType))"

section \<open>Bitmap membership of an inode's addresses\<close>

definition CHK_BIT :: "(u32 \<Rightarrow> bool) \<Rightarrow> u32 \<Rightarrow> bool" where
  "CHK_BIT bmp addr = bmp addr"

definition marked_in_bmp :: "(u32 \<Rightarrow> bool) \<Rightarrow> u32 \<Rightarrow> bool" where
  "marked_in_bmp bmp addr = CHK_BIT bmp addr"

text \<open>One iteration of \<^verbatim>\<open>chk_indirect\<close>; \<open>chkd\<close> is the array \<^verbatim>\<open>bool chkd[size]\<close>.\<close>

definition chk_indirect_body :: "img_t \<Rightarrow> u32 \<Rightarrow> bool list \<Rightarrow> bool list result" where
  "chk_indirect_body img addr chkd =
     (if addr = 0 then Inr chkd
      else if \<not> unat addr < length chkd then Inl OutOfBounds
      else if chkd ! unat addr then Inr chkd
      else if \<not> marked_in_bmp (bitmapblks img) addr then Inl (Exit AddressNotInBitmap)
      else Inr (chkd[unat addr := True]))"

definition chk_indirect :: "img_t \<Rightarrow> u32 list \<Rightarrow> bool list \<Rightarrow> bool list result" where
  "chk_indirect img ind chkd = for_each (chk_indirect_body img) ind chkd"

text \<open>
  One iteration of \<^verbatim>\<open>chk_bmp_addr\<close> for the slot \<^verbatim>\<open>addrs[i]\<close>, \<open>i \<le> NDIRECT\<close>; the
  \<^verbatim>\<open>continue\<close> on a slot that is 0 or already checked also skips the indirect block.
\<close>

definition chk_bmp_addr_body :: "img_t \<Rightarrow> nat \<Rightarrow> nat \<times> u32 \<Rightarrow> bool list \<Rightarrow> bool list result" where
  "chk_bmp_addr_body img NDIRECT ia chkd =
     (case ia of (i, addr) \<Rightarrow>
        if addr = 0 then Inr chkd
        else if \<not> unat addr < length chkd then Inl OutOfBounds
        else if chkd ! unat addr then Inr chkd
        else if \<not> marked_in_bmp (bitmapblks img) addr then Inl (Exit AddressNotInBitmap)
        else let chkd' = chkd[unat addr := True]
             in if i = NDIRECT then chk_indirect img (map_uints img addr) chkd' else Inr chkd')"

definition chk_bmp_addr :: "img_t \<Rightarrow> dinode \<Rightarrow> unit result" where
  "chk_bmp_addr img in' =
     (case for_each (chk_bmp_addr_body img (length (addrs in')))
             (enumerate 0 (addrs in' @ [addrs_NDIRECT in']))
             (replicate (unat (size' (sb img))) False) of
        Inl e \<Rightarrow> Inl e
      | Inr chkd \<Rightarrow> Inr ())"

section \<open>Bitmap reconciliation\<close>

definition chk_mark_bmp :: "(u32 \<Rightarrow> bool) \<Rightarrow> u32 \<Rightarrow> bool list \<Rightarrow> bool list result" where
  "chk_mark_bmp bmp addr chklist =
     (if \<not> CHK_BIT bmp addr then Inl (Exit BitmapBlockNotInUse)
      else if \<not> unat addr < length chklist then Inl OutOfBounds
      else Inr (chklist[unat addr := True]))"

definition bmp_chk_slot :: "img_t \<Rightarrow> u32 \<Rightarrow> bool list \<Rightarrow> bool list result" where
  "bmp_chk_slot img addr chklist =
     (if addr \<noteq> 0 then chk_mark_bmp (bitmapblks img) addr chklist else Inr chklist)"

text \<open>The body of the first loop of \<^verbatim>\<open>bmp_chk\<close> for one inode.\<close>

definition bmp_chk_inode :: "img_t \<Rightarrow> dinode \<Rightarrow> bool list \<Rightarrow> bool list result" where
  "bmp_chk_inode img in' chklist =
     (if type in' = T_FREE then Inr chklist
      else case for_each (bmp_chk_slot img) (addrs in') chklist of
             Inl e \<Rightarrow> Inl e
           | Inr chklist' \<Rightarrow>
               (let indaddr = addrs_NDIRECT in' in
                if indaddr \<noteq> 0 then for_each (bmp_chk_slot img) (map_uints img indaddr) chklist'
                else Inr chklist'))"

text \<open>
  The last loop of \<^verbatim>\<open>bmp_chk\<close>: for every block number below \<^verbatim>\<open>size\<close> it tests
  \<^verbatim>\<open>CHK_BIT(bitmapblks, i) && !chklist[i]\<close>, and the branch taken is empty.
\<close>

definition bmp_chk_final_body :: "img_t \<Rightarrow> bool list \<Rightarrow> nat \<Rightarrow> unit \<Rightarrow> unit result" where
  "bmp_chk_final_body img chklist i u =
     (if CHK_BIT (bitmapblks img) (of_nat i) then
        (if \<not> i < length chklist then Inl OutOfBounds
         else if \<not> chklist ! i then Inr ()
         else Inr ())
      else Inr ())"

definition bmp_chk_final :: "img_t \<Rightarrow> bool list \<Rightarrow> unit result" where
  "bmp_chk_final img chklist =
     for_each (bmp_chk_final_body img chklist) [0..<unat (size' (sb img))] ()"

definition bmp_chk_forward :: "img_t \<Rightarrow> bool list result" where
  "bmp_chk_forward img =
     for_each (\<lambda>i. bmp_chk_inode img (inodeblks img i)) [0..<unat (ninodes (sb img))]
       (replicate (unat (size' (sb img))) False)"

definition bmp_chk :: "img_t \<Rightarrow> unit result" where
  "bmp_chk img =
     (case bmp_chk_forward img of
        Inl e \<Rightarrow> Inl e
      | Inr chklist \<Rightarrow> bmp_chk_final img chklist)"

section \<open>Duplicate use of block addresses\<close>

text \<open>
  \<^verbatim>\<open>blk_usage_chk\<close>: \<open>idx\<close> is computed in \<^verbatim>\<open>uint\<close>, so it wraps around when
  \<open>addr < startblk\<close>; \<open>usage_counts\<close> is the array \<^verbatim>\<open>uint usage_counts[nblocks]\<close>.
\<close>

definition blk_usage_chk :: "img_t \<Rightarrow> u32 list \<Rightarrow> u32 \<Rightarrow> string \<Rightarrow> u32 \<Rightarrow> u32 list result" where
  "blk_usage_chk img usage_counts startblk type' addr =
     (if addr = 0 then Inr usage_counts
      else let idx = addr - startblk in
        if \<not> unat idx < length usage_counts then Inl OutOfBounds
        else let usage_counts' = usage_counts[unat idx := usage_counts ! unat idx + 1] in
          if usage_counts' ! unat idx > 1 then Inl (Exit (DuplicateBlockUse type'))
          else Inr usage_counts')"

definition addrs_chk_inode :: "img_t \<Rightarrow> dinode \<Rightarrow> u32 list \<Rightarrow> u32 list result" where
  "addrs_chk_inode img in' usage_counts =
     (if type in' = T_FREE then Inr usage_counts
      else case for_each (\<lambda>addr uc. blk_usage_chk img uc (firstblk img) ''direct'' addr)
                  (addrs in') usage_counts of
             Inl e \<Rightarrow> Inl e
           | Inr uc' \<Rightarrow>
               (let indaddr = addrs_NDIRECT in' in
                if indaddr \<noteq> 0
                then for_each (\<lambda>addr uc. blk_usage_chk img uc (firstblk img) ''indirect'' addr)
                       (map_uints img indaddr) uc'
                else Inr uc'))"

definition addrs_chk :: "img_t \<Rightarrow> unit result" where
  "addrs_chk img =
     (case for_each (\<lambda>i. addrs_chk_inode img (inodeblks img i)) [0..<unat (ninodes (sb img))]
             (replicate (unat (nblocks (sb img))) 0) of
        Inl e \<Rightarrow> Inl e
      | Inr uc \<Rightarrow> Inr ())"

section \<open>Directory traversal\<close>

text \<open>
  The traversal recurses without a bound, so it returns an option: \<open>None\<close> is a run that
  does not return. \<open>then_do\<close> is sequencing and \<open>for_each_opt\<close> a \<^verbatim>\<open>for\<close> loop for such
  functions.
\<close>

definition then_do :: "'s result option \<Rightarrow> ('s \<Rightarrow> 't result option) \<Rightarrow> 't result option" where
  "then_do r k = (case r of None \<Rightarrow> None | Some (Inl e) \<Rightarrow> Some (Inl e) | Some (Inr s) \<Rightarrow> k s)"

lemma then_do_mono [partial_function_mono]:
  assumes A: "mono_option A" and K: "\<And>s. mono_option (\<lambda>f. K f s)"
  shows "mono_option (\<lambda>f. then_do (A f) (K f))"
proof -
  have eq: "\<And>f. then_do (A f) (K f) =
      Option.bind (A f) (\<lambda>r. case r of Inl e \<Rightarrow> Some (Inl e) | Inr s \<Rightarrow> K f s)"
    by (simp add: then_do_def split: option.splits sum.splits)
  have "mono_option (\<lambda>f. case r of Inl e \<Rightarrow> Some (Inl e) | Inr s \<Rightarrow> K f s)" for r
    by (cases r) (simp_all add: option.const_mono K)
  then show ?thesis
    unfolding eq by (intro bind_mono A)
qed

fun for_each_opt :: "('a \<Rightarrow> 's \<Rightarrow> 's result option) \<Rightarrow> 'a list \<Rightarrow> 's \<Rightarrow> 's result option" where
  "for_each_opt body [] s = Some (Inr s)"
| "for_each_opt body (x # xs) s = then_do (body x s) (for_each_opt body xs)"

lemma for_each_opt_mono [partial_function_mono]:
  assumes "\<And>x s. mono_option (\<lambda>f. body f x s)"
  shows "mono_option (\<lambda>f. for_each_opt (body f) xs s)"
proof (induction xs arbitrary: s)
  case Nil
  show ?case by (simp add: option.const_mono)
next
  case (Cons x xs)
  show ?case
    by (simp only: for_each_opt.simps) (intro then_do_mono assms Cons.IH)
qed

text \<open>
  \<^verbatim>\<open>process_block\<close> is the function nested in \<^verbatim>\<open>traverse_dirs\<close>; \<open>rec d m\<close> stands for
  its call \<^verbatim>\<open>traverse_dirs(img, d, inodemap)\<close> with the array in state \<open>m\<close>. The entry
  \<^verbatim>\<open>inodemap[de->inum]\<close> lies in the array \<^verbatim>\<open>int inmap[ninodes]\<close> of \<^verbatim>\<open>dir_chk\<close>.
\<close>

definition process_block ::
  "(dinode \<Rightarrow> int list \<Rightarrow> int list result option) \<Rightarrow> img_t \<Rightarrow> u32 \<Rightarrow> int list \<Rightarrow> int list result option" where
  "process_block rec img addr inodemap =
     (if addr = 0 then Some (Inr inodemap)
      else for_each_opt
        (\<lambda>de m.
           if inum de = 0 \<or> name de = ''.'' \<or> name de = ''..'' then Some (Inr m)
           else if \<not> unat (inum de) < length m then Some (Inl OutOfBounds)
           else rec (inodeblks img (unat (inum de))) (m[unat (inum de) := m ! unat (inum de) + 1]))
        (map_dirents img addr) inodemap)"

lemma process_block_mono [partial_function_mono]:
  assumes "\<And>d m. mono_option (\<lambda>f. rec f d m)"
  shows "mono_option (\<lambda>f. process_block (rec f) img addr inodemap)"
  unfolding process_block_def
  by (intro if_mono option.const_mono for_each_opt_mono assms)

partial_function (option) traverse_dirs :: "img_t \<Rightarrow> dinode \<Rightarrow> int list \<Rightarrow> int list result option" where
  "traverse_dirs img dir_inode inodemap =
     (if type dir_inode \<noteq> T_DIR then Some (Inr inodemap)
      else then_do (for_each_opt (process_block (traverse_dirs img) img) (addrs dir_inode) inodemap)
             (\<lambda>m. let addr = addrs_NDIRECT dir_inode in
                if addr \<noteq> 0
                then for_each_opt (process_block (traverse_dirs img) img) (map_uints img addr) m
                else Some (Inr m)))"

section \<open>Reference counts\<close>

definition chk_in_use :: "dinode \<Rightarrow> nat \<Rightarrow> int list \<Rightarrow> unit result" where
  "chk_in_use in' idx inmap =
     (if type in' \<noteq> T_FREE then
        (if \<not> idx < length inmap then Inl OutOfBounds
         else if inmap ! idx = 0 then Inl (Exit InodeNotInAnyDirectory)
         else Inr ())
      else Inr ())"

definition chk_in_free :: "dinode \<Rightarrow> nat \<Rightarrow> int list \<Rightarrow> unit result" where
  "chk_in_free in' idx inmap =
     (if \<not> idx < length inmap then Inl OutOfBounds
      else if inmap ! idx > 0 \<and> type in' = T_FREE then Inl (Exit DanglingDirectoryReference)
      else Inr ())"

definition chk_ref_cnt :: "dinode \<Rightarrow> nat \<Rightarrow> int list \<Rightarrow> unit result" where
  "chk_ref_cnt in' idx inmap =
     (if type in' = T_FILE then
        (if \<not> idx < length inmap then Inl OutOfBounds
         else if nlink in' \<noteq> inmap ! idx then Inl (Exit BadLinkCount)
         else Inr ())
      else Inr ())"

definition chk_dir_once :: "dinode \<Rightarrow> nat \<Rightarrow> int list \<Rightarrow> unit result" where
  "chk_dir_once in' idx inmap =
     (if type in' = T_DIR then
        (if \<not> idx < length inmap then Inl OutOfBounds
         else if inmap ! idx > 1 then Inl (Exit DirectoryHardLinked)
         else Inr ())
      else Inr ())"

text \<open>
  The start of \<^verbatim>\<open>dir_chk\<close>: the array \<^verbatim>\<open>int inmap[ninodes]\<close> set to zero, then
  \<^verbatim>\<open>inmap[0]++; inmap[1]++;\<close>.
\<close>

definition dir_chk_init :: "img_t \<Rightarrow> int list result" where
  "dir_chk_init img =
     (let inmap = replicate (unat (ninodes (sb img))) 0 in
      if \<not> 0 < length inmap then Inl OutOfBounds
      else let inmap = inmap[0 := inmap ! 0 + 1] in
        if \<not> 1 < length inmap then Inl OutOfBounds
        else Inr (inmap[1 := inmap ! 1 + 1]))"

text \<open>The body of the last loop of \<^verbatim>\<open>dir_chk\<close> for the inode number \<open>i\<close>.\<close>

definition dir_chk_body :: "img_t \<Rightarrow> int list \<Rightarrow> nat \<Rightarrow> unit \<Rightarrow> unit result" where
  "dir_chk_body img inmap i u =
     (let in' = inodeblks img i in
      case chk_in_use in' i inmap of Inl e \<Rightarrow> Inl e | Inr _ \<Rightarrow>
      case chk_in_free in' i inmap of Inl e \<Rightarrow> Inl e | Inr _ \<Rightarrow>
      case chk_ref_cnt in' i inmap of Inl e \<Rightarrow> Inl e | Inr _ \<Rightarrow>
      chk_dir_once in' i inmap)"

definition dir_chk_sweep :: "img_t \<Rightarrow> int list \<Rightarrow> unit result" where
  "dir_chk_sweep img inmap = for_each (dir_chk_body img inmap) [2..<unat (ninodes (sb img))] ()"

definition dir_chk :: "img_t \<Rightarrow> unit result option" where
  "dir_chk img =
     (case dir_chk_init img of
        Inl e \<Rightarrow> Some (Inl e)
      | Inr inmap \<Rightarrow>
          then_do (traverse_dirs img (inodeblks img 1) inmap)
            (\<lambda>inmap'. Some (dir_chk_sweep img inmap')))"

section \<open>The run\<close>

text \<open>
  The body of the loop of \<^verbatim>\<open>main\<close> for the inode number \<open>i\<close>: for an inode that is not
  free the checks of type, addresses and directory format, then \<^verbatim>\<open>chk_bmp_addr\<close>.
\<close>

definition main_body_checks :: "img_t \<Rightarrow> nat \<Rightarrow> unit result" where
  "main_body_checks img i =
     (let in' = inodeblks img i in
      case validate_type in' of Inl e \<Rightarrow> Inl e | Inr _ \<Rightarrow>
      case check_direct img in' of Inl e \<Rightarrow> Inl e | Inr _ \<Rightarrow>
      case check_indirect img in' of Inl e \<Rightarrow> Inl e | Inr _ \<Rightarrow>
      (if i = 1 then
         (if type in' \<noteq> T_DIR then Inl (Exit MissingRoot) else validate_dir img in' 1)
       else if type in' = T_DIR then validate_dir img in' i
       else Inr ()))"

definition main_body :: "img_t \<Rightarrow> nat \<Rightarrow> unit \<Rightarrow> unit result" where
  "main_body img i u =
     (let in' = inodeblks img i in
      if type in' = T_FREE then Inr ()
      else case main_body_checks img i of
             Inl e \<Rightarrow> Inl e
           | Inr _ \<Rightarrow> chk_bmp_addr img in')"

definition main_sweep :: "img_t \<Rightarrow> unit result" where
  "main_sweep img = for_each (main_body img) [0..<unat (ninodes (sb img))] ()"

text \<open>
  \<^verbatim>\<open>main\<close> from \<^verbatim>\<open>init_img\<close> on, for an image that was opened and mapped; \<open>Some (Inr ())\<close>
  is \<^verbatim>\<open>exit(0)\<close>.
\<close>

definition main :: "u32 \<Rightarrow> u32 \<Rightarrow> img_t \<Rightarrow> unit result option" where
  "main IPB BPB mmap_img =
     (let img = init_img IPB BPB mmap_img in
      case main_sweep img of Inl e \<Rightarrow> Some (Inl e) | Inr _ \<Rightarrow>
      case bmp_chk img of Inl e \<Rightarrow> Some (Inl e) | Inr _ \<Rightarrow>
      case addrs_chk img of Inl e \<Rightarrow> Some (Inl e) | Inr _ \<Rightarrow>
      dir_chk img)"

section \<open>Notions of the specification and of the proofs\<close>

text \<open>The ceiling of a quotient, as the specification writes the two block counts.\<close>

definition spec_ceil :: "nat \<Rightarrow> nat \<Rightarrow> nat" where
  "spec_ceil n k = nat \<lceil>real n / real k\<rceil>"

text \<open>
  The rules of the specification's reference reconciler for one inode with accumulated
  count \<open>c\<close>, in the order the specification lists them.
\<close>

definition spec_reconcile :: "dinode \<Rightarrow> int \<Rightarrow> error option" where
  "spec_reconcile in' c =
     (if type in' \<noteq> T_FREE \<and> c = 0 then Some InodeNotInAnyDirectory
      else if 0 < c \<and> type in' = T_FREE then Some DanglingDirectoryReference
      else if type in' = T_FILE \<and> nlink in' \<noteq> c then Some BadLinkCount
      else if type in' = T_DIR \<and> 1 < c then Some DirectoryHardLinked
      else None)"

text \<open>
  What \<^verbatim>\<open>process_entries\<close> requires of one directory entry of the directory \<open>inum'\<close>;
  the entry blocks of an inode's non-zero direct slots, in slot order; and the condition
  that the first \<open>k\<close> of these blocks hold only entries that pass and hold both a "."
  and a ".." entry.
\<close>

definition entry_ok :: "nat \<Rightarrow> dirent \<Rightarrow> bool" where
  "entry_ok inum' de \<longleftrightarrow>
     (name de = ''.'' \<longrightarrow> unat (inum de) = inum') \<and>
     (name de = ''..'' \<longrightarrow> (if inum' = 1 then unat (inum de) = 1 else unat (inum de) \<noteq> inum'))"

definition dir_blocks :: "img_t \<Rightarrow> dinode \<Rightarrow> dirent list list" where
  "dir_blocks img in' = map (map_dirents img) (filter (\<lambda>addr. addr \<noteq> 0) (addrs in'))"

definition wellformed_upto :: "nat \<Rightarrow> dirent list list \<Rightarrow> nat \<Rightarrow> bool" where
  "wellformed_upto inum' bs k \<longleftrightarrow>
     (\<forall>de\<in>set (concat (take k bs)). entry_ok inum' de) \<and>
     (\<exists>de\<in>set (concat (take k bs)). name de = ''.'') \<and>
     (\<exists>de\<in>set (concat (take k bs)). name de = ''..'')"

text \<open>
  The references that \<^verbatim>\<open>addrs_chk\<close> hands to \<^verbatim>\<open>blk_usage_chk\<close> with a non-zero address, in
  the order of its loops, each with the \<^verbatim>\<open>type\<close> string of the call: for a non-free inode
  the non-zero direct slots, then the non-zero words of the indirect block when the
  indirect slot is not 0. \<open>spec_block_refs\<close> is the list of the specification, which also
  counts the indirect slot itself.
\<close>

definition inode_refs :: "img_t \<Rightarrow> dinode \<Rightarrow> (string \<times> u32) list" where
  "inode_refs img in' =
     (if type in' = T_FREE then []
      else map (Pair ''direct'') (filter (\<lambda>addr. addr \<noteq> 0) (addrs in')) @
           (if addrs_NDIRECT in' \<noteq> 0
            then map (Pair ''indirect'') (filter (\<lambda>addr. addr \<noteq> 0) (map_uints img (addrs_NDIRECT in')))
            else []))"

definition block_refs :: "img_t \<Rightarrow> (string \<times> u32) list" where
  "block_refs img = concat (map (\<lambda>i. inode_refs img (inodeblks img i)) [0..<unat (ninodes (sb img))])"

definition spec_inode_refs :: "img_t \<Rightarrow> dinode \<Rightarrow> u32 list" where
  "spec_inode_refs img in' =
     (if type in' = T_FREE then []
      else filter (\<lambda>addr. addr \<noteq> 0) (addrs in') @
           (if addrs_NDIRECT in' \<noteq> 0
            then addrs_NDIRECT in' # filter (\<lambda>addr. addr \<noteq> 0) (map_uints img (addrs_NDIRECT in'))
            else []))"

definition spec_block_refs :: "img_t \<Rightarrow> u32 list" where
  "spec_block_refs img =
     concat (map (\<lambda>i. spec_inode_refs img (inodeblks img i)) [0..<unat (ninodes (sb img))])"

text \<open>
  The state of the array \<^verbatim>\<open>usage_counts\<close> of \<open>n\<close> entries after the addresses \<open>seen\<close> were
  counted once each, with first data block \<open>fb\<close>.
\<close>

definition counts_of :: "nat \<Rightarrow> u32 \<Rightarrow> u32 set \<Rightarrow> u32 list \<Rightarrow> bool" where
  "counts_of n fb seen uc \<longleftrightarrow>
     length uc = n \<and> (\<forall>i<n. uc ! i = (if \<exists>a\<in>seen. unat (a - fb) = i then 1 else 0))"

text \<open>
  The directory graph that \<^verbatim>\<open>traverse_dirs\<close> walks. An entry is followed when its inode
  number is not 0 and its name is neither "." nor ".."; the entry blocks of a directory are
  those of its non-zero direct slots and of the non-zero words of its indirect block;
  \<open>(j, i)\<close> is a link when the inode \<open>i\<close> is a directory one of whose entry blocks holds
  a followed entry for the inode \<open>j\<close>.
\<close>

definition followed :: "dirent \<Rightarrow> bool" where
  "followed de \<longleftrightarrow> \<not> (inum de = 0 \<or> name de = ''.'' \<or> name de = ''..'')"

definition dir_block_addrs :: "img_t \<Rightarrow> dinode \<Rightarrow> u32 set" where
  "dir_block_addrs img d =
     {a. a \<noteq> 0 \<and> (a \<in> set (addrs d) \<or>
          (addrs_NDIRECT d \<noteq> 0 \<and> a \<in> set (map_uints img (addrs_NDIRECT d))))}"

definition dir_links :: "img_t \<Rightarrow> (u16 \<times> u16) set" where
  "dir_links img =
     {(j, i). type (inodeblks img (unat i)) = T_DIR \<and>
        (\<exists>a\<in>dir_block_addrs img (inodeblks img (unat i)).
           \<exists>de\<in>set (map_dirents img a). followed de \<and> inum de = j)}"

text \<open>
  Two properties of the arrays \<^verbatim>\<open>chkd\<close> and \<^verbatim>\<open>chklist\<close>: every marked entry is the number of
  a block whose bitmap bit is set; every marked entry is the number of an address of \<open>A\<close>.
\<close>

definition marks_ok :: "img_t \<Rightarrow> bool list \<Rightarrow> bool" where
  "marks_ok img chkd \<longleftrightarrow> (\<forall>b. unat b < length chkd \<longrightarrow> chkd ! unat b \<longrightarrow> bitmapblks img b)"

definition marks_from :: "u32 set \<Rightarrow> bool list \<Rightarrow> bool" where
  "marks_from A chkd \<longleftrightarrow> (\<forall>k<length chkd. chkd ! k \<longrightarrow> (\<exists>b\<in>A. unat b = k))"

text \<open>
  An inode uses an address when the address is not 0 and is in one of its direct slots,
  in its indirect slot, or in its indirect block.
\<close>

definition inode_uses :: "img_t \<Rightarrow> dinode \<Rightarrow> u32 \<Rightarrow> bool" where
  "inode_uses img in' a \<longleftrightarrow>
     a \<noteq> 0 \<and> (a \<in> set (addrs in') \<or> a = addrs_NDIRECT in' \<or>
       (addrs_NDIRECT in' \<noteq> 0 \<and> a \<in> set (map_uints img (addrs_NDIRECT in'))))"

text \<open>
  The scan of \<^verbatim>\<open>validate_dir\<close> in terms of the entries alone. A list of entries has its
  dots when it holds an entry named "." and an entry named "..". The scan reads whole
  blocks: as many as the shortest initial run of the blocks that has its dots, and all of
  them when no initial run has. The first offence among entries is the kind of message
  for the first entry that fails \<open>entry_ok\<close>: such an entry is named "." or "..", and the
  message for ".." is the one about the root directory.
\<close>

definition has_dots :: "dirent list \<Rightarrow> bool" where
  "has_dots es \<longleftrightarrow> (\<exists>de\<in>set es. name de = ''.'') \<and> (\<exists>de\<in>set es. name de = ''..'')"

definition scan_len :: "dirent list list \<Rightarrow> nat" where
  "scan_len bs =
     (case find (\<lambda>k. has_dots (concat (take k bs))) [0..<length bs] of
        None \<Rightarrow> length bs | Some k \<Rightarrow> k)"

definition scanned :: "dirent list list \<Rightarrow> dirent list" where
  "scanned bs = concat (take (scan_len bs) bs)"

definition first_offence :: "nat \<Rightarrow> dirent list \<Rightarrow> error option" where
  "first_offence inum' es =
     (case find (\<lambda>de. \<not> entry_ok inum' de) es of
        None \<Rightarrow> None
      | Some de \<Rightarrow> Some (if name de = ''..'' then MissingRoot else MalformedDirectory))"

text \<open>
  The image with every directory entry named "." or ".." removed from every block.
\<close>

definition without_dots :: "img_t \<Rightarrow> img_t" where
  "without_dots img =
     img\<lparr>map_dirents := (\<lambda>a. filter (\<lambda>de. name de \<noteq> ''.'' \<and> name de \<noteq> ''..'') (map_dirents img a))\<rparr>"

text \<open>
  The kind that the taxonomy of the specification gives to an outcome. The program has
  two messages for a referenced address whose bitmap bit is clear, one in the per-inode
  check \<^verbatim>\<open>chk_bmp_addr\<close> and one in the first loop of \<^verbatim>\<open>bmp_chk\<close>; the specification
  names both checks' violation \<open>AddressNotInBitmap\<close> (its sections 4.3, step 6, and 4.4,
  forward direction) and has no other kind for them.
\<close>

definition spec_kind :: "error \<Rightarrow> error" where
  "spec_kind e = (if e = BitmapBlockNotInUse then AddressNotInBitmap else e)"

section \<open>Example images\<close>

text \<open>
  The examples use the sizes of xv6: 12 direct slots, 128 words in an indirect block, 32
  directory entries in a block, 8 inodes and 4096 bitmap bits per block.
\<close>

definition free_inode :: dinode where
  "free_inode = \<lparr>type = T_FREE, nlink = 0, addrs = replicate 12 0, addrs_NDIRECT = 0\<rparr>"

definition empty_dirent :: dirent where
  "empty_dirent = \<lparr>inum = 0, name = []\<rparr>"

definition blank_img :: "superblock \<Rightarrow> img_t" where
  "blank_img s =
     \<lparr>ninodeblks = 0, nbitmapblks = 0, firstblk = 0, sb = s,
      inodeblks = (\<lambda>i. free_inode), bitmapblks = (\<lambda>a. False),
      map_uints = (\<lambda>a. replicate 128 0), map_dirents = (\<lambda>a. replicate 32 empty_dirent)\<rparr>"

text \<open>The superblock of the specification's minimal image, and a small one.\<close>

definition sb_A :: superblock where
  "sb_A = \<lparr>size' = 1024, nblocks = 941, ninodes = 200\<rparr>"

definition sb_small :: superblock where
  "sb_small = \<lparr>size' = 16, nblocks = 12, ninodes = 4\<rparr>"

text \<open>An inode with a direct address equal to \<open>size\<close>, and one whose indirect block holds \<^verbatim>\<open>0x7fffffff\<close>.\<close>

definition bad_direct_inode :: dinode where
  "bad_direct_inode = \<lparr>type = T_FILE, nlink = 1, addrs = [5, 0, 16] @ replicate 9 0, addrs_NDIRECT = 0\<rparr>"

definition bad_indirect_inode :: dinode where
  "bad_indirect_inode = \<lparr>type = T_FILE, nlink = 1, addrs = [5] @ replicate 11 0, addrs_NDIRECT = 6\<rparr>"

definition bad_indirect_img :: img_t where
  "bad_indirect_img = (blank_img sb_small)
     \<lparr>inodeblks := (\<lambda>i. if i = 2 then bad_direct_inode else if i = 3 then bad_indirect_inode else free_inode),
      map_uints := (\<lambda>a. if a = 6 then [7, 0, 0x7fffffff] @ replicate 125 0 else replicate 128 0)\<rparr>"

text \<open>A table with a file inode of link count 2 and a device inode.\<close>

definition recon_img :: img_t where
  "recon_img = (blank_img sb_small)
     \<lparr>inodeblks := (\<lambda>i. if i = 2 then \<lparr>type = T_FILE, nlink = 2, addrs = replicate 12 0, addrs_NDIRECT = 0\<rparr>
                         else if i = 3 then \<lparr>type = T_DEV, nlink = 7, addrs = replicate 12 0, addrs_NDIRECT = 0\<rparr>
                         else free_inode)\<rparr>"

text \<open>
  Directories in a small image: a root whose block 4 holds two entries named ".", the
  root of scenario E whose "." entry points at inode 2, and a directory inode 2 whose
  ".." entry points at itself.
\<close>

definition dir_inode_at :: "u32 \<Rightarrow> dinode" where
  "dir_inode_at a = \<lparr>type = T_DIR, nlink = 1, addrs = a # replicate 11 0, addrs_NDIRECT = 0\<rparr>"

definition two_dots_img :: img_t where
  "two_dots_img = (blank_img sb_small)
     \<lparr>inodeblks := (\<lambda>i. if i = 1 then dir_inode_at 4 else free_inode),
      map_dirents := (\<lambda>a. if a = 4
         then [\<lparr>inum = 1, name = ''.''\<rparr>, \<lparr>inum = 1, name = ''.''\<rparr>, \<lparr>inum = 1, name = ''..''\<rparr>]
              @ replicate 29 empty_dirent
         else replicate 32 empty_dirent)\<rparr>"

definition scenario_E_img :: img_t where
  "scenario_E_img = (blank_img sb_small)
     \<lparr>inodeblks := (\<lambda>i. if i = 1 then dir_inode_at 4 else free_inode),
      map_dirents := (\<lambda>a. if a = 4
         then [\<lparr>inum = 2, name = ''.''\<rparr>, \<lparr>inum = 1, name = ''..''\<rparr>] @ replicate 30 empty_dirent
         else replicate 32 empty_dirent)\<rparr>"

definition self_parent_img :: img_t where
  "self_parent_img = (blank_img sb_small)
     \<lparr>inodeblks := (\<lambda>i. if i = 2 then dir_inode_at 5 else free_inode),
      map_dirents := (\<lambda>a. if a = 5
         then [\<lparr>inum = 2, name = ''.''\<rparr>, \<lparr>inum = 2, name = ''..''\<rparr>] @ replicate 30 empty_dirent
         else replicate 32 empty_dirent)\<rparr>"

text \<open>
  Small images for the duplicate-use check (first data block 4): block 5 is a direct
  block of inode 2 and the indirect block of inode 3, whose words are all 0; and block 5
  is a direct block of both inodes.
\<close>

definition file_inode :: "u32 list \<Rightarrow> u32 \<Rightarrow> dinode" where
  "file_inode direct ind = \<lparr>type = T_FILE, nlink = 1, addrs = direct, addrs_NDIRECT = ind\<rparr>"

definition shared_ptr_img :: img_t where
  "shared_ptr_img = init_img 8 4096 ((blank_img sb_small)
     \<lparr>inodeblks := (\<lambda>i. if i = 2 then file_inode (5 # replicate 11 0) 0
                         else if i = 3 then file_inode (replicate 12 0) 5
                         else free_inode)\<rparr>)"

definition shared_direct_img :: img_t where
  "shared_direct_img = init_img 8 4096 ((blank_img sb_small)
     \<lparr>inodeblks := (\<lambda>i. if i = 2 then file_inode (5 # replicate 11 0) 0
                         else if i = 3 then file_inode (5 # replicate 11 0) 0
                         else free_inode)\<rparr>)"

text \<open>
  Two images of 8 inodes and 16 blocks. The inode table has the blocks 2 and 3 (the
  program reserves \<open>ninodes / IPB + 1\<close> blocks), the bitmap is block 4 and the first data
  block is 5. Block 3 would hold the inodes 8 to 15, which do not exist: it is zero,
  whether read as inodes, as words or as directory entries. The bitmap marks the blocks 0
  to 5. The root holds the file "f" (inode 2). In \<open>below_direct_img\<close> inode 2 has block 3
  in a direct slot, in \<open>below_indirect_img\<close> it has block 3 in its indirect slot.
\<close>

definition sb_eight :: superblock where
  "sb_eight = \<lparr>size' = 16, nblocks = 11, ninodes = 8\<rparr>"

definition below_direct_img :: img_t where
  "below_direct_img =
     (blank_img sb_eight)
       \<lparr>inodeblks := (\<lambda>i. if i = 1 then dir_inode_at 5
                         else if i = 2 then file_inode (3 # replicate 11 0) 0
                         else free_inode),
        bitmapblks := (\<lambda>a. a < 6),
        map_dirents := (\<lambda>a.
          if a = 5 then [\<lparr>inum = 1, name = ''.''\<rparr>, \<lparr>inum = 1, name = ''..''\<rparr>,
                         \<lparr>inum = 2, name = ''f''\<rparr>]
                        @ replicate 29 empty_dirent
          else replicate 32 empty_dirent)\<rparr>"

definition below_indirect_img :: img_t where
  "below_indirect_img =
     (blank_img sb_eight)
       \<lparr>inodeblks := (\<lambda>i. if i = 1 then dir_inode_at 5
                         else if i = 2 then file_inode (replicate 12 0) 3
                         else free_inode),
        bitmapblks := (\<lambda>a. a < 6),
        map_dirents := (\<lambda>a.
          if a = 5 then [\<lparr>inum = 1, name = ''.''\<rparr>, \<lparr>inum = 1, name = ''..''\<rparr>,
                         \<lparr>inum = 2, name = ''f''\<rparr>]
                        @ replicate 29 empty_dirent
          else replicate 32 empty_dirent)\<rparr>"

text \<open>
  Two images of 4 inodes and 16 blocks (first data block 4) that pass every check before
  the traversal. In \<open>tree_img\<close> the root holds a directory "sub" (inode 2) and a file
  "foo" (inode 3), and the bitmap marks the blocks 0 to 7, of which block 7 is in no
  inode. In \<open>cyc_img\<close> the root holds the directory "sub" (inode 2), which holds an entry
  "up" for the root.
\<close>

definition tree_img :: img_t where
  "tree_img =
     (blank_img sb_small)
       \<lparr>inodeblks := (\<lambda>i. if i = 1 then dir_inode_at 4
                         else if i = 2 then dir_inode_at 5
                         else if i = 3 then file_inode (6 # replicate 11 0) 0
                         else free_inode),
        bitmapblks := (\<lambda>a. a < 8),
        map_dirents := (\<lambda>a.
          if a = 4 then [\<lparr>inum = 1, name = ''.''\<rparr>, \<lparr>inum = 1, name = ''..''\<rparr>,
                         \<lparr>inum = 2, name = ''sub''\<rparr>, \<lparr>inum = 3, name = ''foo''\<rparr>]
                        @ replicate 28 empty_dirent
          else if a = 5 then [\<lparr>inum = 2, name = ''.''\<rparr>, \<lparr>inum = 1, name = ''..''\<rparr>]
                        @ replicate 30 empty_dirent
          else replicate 32 empty_dirent)\<rparr>"

definition cyc_img :: img_t where
  "cyc_img =
     (blank_img sb_small)
       \<lparr>inodeblks := (\<lambda>i. if i = 1 then dir_inode_at 4
                         else if i = 2 then dir_inode_at 5
                         else free_inode),
        bitmapblks := (\<lambda>a. a < 6),
        map_dirents := (\<lambda>a.
          if a = 4 then [\<lparr>inum = 1, name = ''.''\<rparr>, \<lparr>inum = 1, name = ''..''\<rparr>,
                         \<lparr>inum = 2, name = ''sub''\<rparr>]
                        @ replicate 29 empty_dirent
          else if a = 5 then [\<lparr>inum = 2, name = ''.''\<rparr>, \<lparr>inum = 1, name = ''..''\<rparr>,
                         \<lparr>inum = 1, name = ''up''\<rparr>]
                        @ replicate 29 empty_dirent
          else replicate 32 empty_dirent)\<rparr>"

text \<open>
  Images of 4 inodes and 16 blocks with a used address whose bitmap bit is clear and a
  block used twice. In \<open>both_img\<close> the file inode 3 uses block 5, a block of the directory
  inode 2, and block 6, which is unmarked. In \<open>skipped_img\<close> the file inode 3 has block 6
  in a direct slot and in the indirect slot, block 6 is also a direct block of inode 2, and
  the indirect block holds the unmarked block 9.
\<close>

definition both_img :: img_t where
  "both_img =
     (blank_img sb_small)
       \<lparr>inodeblks := (\<lambda>i. if i = 1 then dir_inode_at 4
                         else if i = 2 then dir_inode_at 5
                         else if i = 3 then file_inode (5 # 6 # replicate 10 0) 0
                         else free_inode),
        bitmapblks := (\<lambda>a. a < 6),
        map_dirents := (\<lambda>a.
          if a = 4 then [\<lparr>inum = 1, name = ''.''\<rparr>, \<lparr>inum = 1, name = ''..''\<rparr>,
                         \<lparr>inum = 2, name = ''sub''\<rparr>, \<lparr>inum = 3, name = ''foo''\<rparr>]
                        @ replicate 28 empty_dirent
          else if a = 5 then [\<lparr>inum = 2, name = ''.''\<rparr>, \<lparr>inum = 1, name = ''..''\<rparr>]
                        @ replicate 30 empty_dirent
          else replicate 32 empty_dirent)\<rparr>"

definition skipped_img :: img_t where
  "skipped_img =
     (blank_img sb_small)
       \<lparr>inodeblks := (\<lambda>i. if i = 1 then dir_inode_at 4
                         else if i = 2 then file_inode (6 # replicate 11 0) 0
                         else if i = 3 then file_inode (6 # replicate 11 0) 6
                         else free_inode),
        bitmapblks := (\<lambda>a. a < 7),
        map_uints := (\<lambda>a. if a = 6 then 9 # replicate 127 0 else replicate 128 0),
        map_dirents := (\<lambda>a.
          if a = 4 then [\<lparr>inum = 1, name = ''.''\<rparr>, \<lparr>inum = 1, name = ''..''\<rparr>,
                         \<lparr>inum = 2, name = ''f''\<rparr>, \<lparr>inum = 3, name = ''g''\<rparr>]
                        @ replicate 28 empty_dirent
          else replicate 32 empty_dirent)\<rparr>"

section \<open>Loops\<close>

lemma for_each_unit:
  "for_each body xs (u::unit) =
     (case find (\<lambda>x. body x () \<noteq> Inr ()) xs of None \<Rightarrow> Inr () | Some x \<Rightarrow> body x ())"
  by (induction xs) (auto split: sum.splits)

lemma for_each_append:
  "for_each body (xs @ ys) s =
     (case for_each body xs s of Inl e \<Rightarrow> Inl e | Inr s' \<Rightarrow> for_each body ys s')"
  by (induction xs arbitrary: s) (auto split: sum.splits)

lemma for_each_replicate_skip:
  "(\<And>s. body x s = Inr s) \<Longrightarrow> for_each body (replicate n x) s = Inr s"
  by (induction n) auto

section \<open>Layout: the block counts\<close>

lemma spec_ceil_div:
  assumes "0 < k"
  shows "spec_ceil n k = (if k dvd n then n div k else n div k + 1)"
proof -
  have "\<lceil>real n / real k\<rceil> = - (- int n div int k)"
    using ceiling_divide_eq_div [of "int n" "int k"] by simp
  also have "\<dots> = (if k dvd n then int (n div k) else int (n div k) + 1)"
  proof (cases "k dvd n")
    case True
    then obtain q where "n = k * q" by (auto simp: dvd_def)
    then have "- int n = int k * (- int q)" by simp
    then have "- int n div int k = - int q"
      using assms by (simp del: mult_minus_right)
    with \<open>n = k * q\<close> assms show ?thesis by simp
  next
    case False
    then have nd: "int n mod int k \<noteq> 0"
      by (simp add: dvd_eq_mod_eq_0 flip: zmod_int)
    have "(- int n) div int k = - (int n div int k) - 1"
      using nd assms zdiv_zminus1_eq_if [of "int k" "int n"] by simp
    with False show ?thesis by (simp add: zdiv_int)
  qed
  finally show ?thesis by (simp add: spec_ceil_def nat_add_distrib)
qed

lemma firstblk_unat:
  fixes p q :: u32
  assumes "unat p + unat q + 4 < 2 ^ 32"
  shows "unat (p + 1) = unat p + 1" and "unat (q + 1) = unat q + 1"
    and "unat ((p + 1) + (q + 1) + 2) = unat p + unat q + 4"
proof -
  have small: "n \<le> unat p + unat q + 4 \<Longrightarrow> unat (of_nat n :: u32) = n" for n
    using assms by (simp add: unat_of_nat)
  show "unat (p + 1) = unat p + 1"
    using small [of "unat p + 1"] by (simp add: ac_simps)
  show "unat (q + 1) = unat q + 1"
    using small [of "unat q + 1"] by (simp add: ac_simps)
  show "unat ((p + 1) + (q + 1) + 2) = unat p + unat q + 4"
    using small [of "unat p + unat q + 4"] by (simp add: ac_simps)
qed

text \<open>
  C3, as the specification states it, fails: \<^verbatim>\<open>init_img\<close> computes each block count as
  the quotient plus one, not as the ceiling. For the superblock of the specification's
  minimal image (200 inodes, 8 per block) the inode table gets 26 blocks, and the ceiling
  of 200 / 8 is 25.
\<close>

theorem init_img_ceiling_counterexample:
  "unat (ninodeblks (init_img 8 4096 (blank_img sb_A))) = 26 \<and> spec_ceil 200 8 = 25
   \<and> 0 < ninodes sb_A \<and> nblocks sb_A < size' sb_A
   \<and> unat (ninodeblks (init_img 8 4096 (blank_img sb_A))) \<noteq> spec_ceil (unat (ninodes sb_A)) 8"
  by (simp add: init_img_def blank_img_def sb_A_def spec_ceil_def)

text \<open>
  C3, amended: when \<^verbatim>\<open>IPB\<close> and \<^verbatim>\<open>BPB\<close> are positive and the sums do not exceed the
  32-bit range, the inode-table block count is \<open>ninodes div IPB + 1\<close> and the bitmap block
  count is \<open>size div BPB + 1\<close>; each is the ceiling of the quotient when the division
  leaves a remainder, and the ceiling plus one when it is exact. \<open>firstblk\<close> is 2 plus
  the two block counts.
\<close>

theorem init_img_layout:
  assumes IPB: "IPB \<noteq> 0" and BPB: "BPB \<noteq> 0"
    and nowrap: "unat (ninodes (sb img)) div unat IPB + unat (size' (sb img)) div unat BPB + 4 < 2 ^ 32"
  shows "unat (ninodeblks (init_img IPB BPB img)) = unat (ninodes (sb img)) div unat IPB + 1
    \<and> unat (nbitmapblks (init_img IPB BPB img)) = unat (size' (sb img)) div unat BPB + 1
    \<and> unat (ninodeblks (init_img IPB BPB img)) =
        (if unat IPB dvd unat (ninodes (sb img))
         then spec_ceil (unat (ninodes (sb img))) (unat IPB) + 1
         else spec_ceil (unat (ninodes (sb img))) (unat IPB))
    \<and> unat (nbitmapblks (init_img IPB BPB img)) =
        (if unat BPB dvd unat (size' (sb img))
         then spec_ceil (unat (size' (sb img))) (unat BPB) + 1
         else spec_ceil (unat (size' (sb img))) (unat BPB))
    \<and> unat (firstblk (init_img IPB BPB img)) =
        2 + unat (ninodeblks (init_img IPB BPB img)) + unat (nbitmapblks (init_img IPB BPB img))"
proof -
  let ?p = "ninodes (sb img) div IPB" and ?q = "size' (sb img) div BPB"
  have ipos: "0 < unat IPB" and bpos: "0 < unat BPB"
    using IPB BPB by (simp_all add: unat_gt_0)
  have up: "unat ?p = unat (ninodes (sb img)) div unat IPB"
    and uq: "unat ?q = unat (size' (sb img)) div unat BPB"
    by (simp_all add: unat_div)
  have "unat ?p + unat ?q + 4 < 2 ^ 32"
    using nowrap by (simp only: up uq)
  note fb = firstblk_unat [OF this]
  have sel: "ninodeblks (init_img IPB BPB img) = ?p + 1"
    "nbitmapblks (init_img IPB BPB img) = ?q + 1"
    "firstblk (init_img IPB BPB img) = (?p + 1) + (?q + 1) + 2"
    by (simp_all add: init_img_def Let_def)
  show ?thesis
    unfolding sel fb up uq using ipos bpos by (simp add: spec_ceil_div)
qed

theorem init_img_layout_witness:
  "unat (ninodeblks (init_img 8 4096 (blank_img sb_A))) = 26
   \<and> unat (nbitmapblks (init_img 8 4096 (blank_img sb_A))) = 1
   \<and> unat (firstblk (init_img 8 4096 (blank_img sb_A))) = 29"
proof -
  have "unat (ninodes (sb (blank_img sb_A))) div unat (8::u32)
      + unat (size' (sb (blank_img sb_A))) div unat (4096::u32) + 4 < 2 ^ 32"
    by (simp add: blank_img_def sb_A_def)
  from init_img_layout [of 8 4096 "blank_img sb_A", OF _ _ this]
  show ?thesis by (simp add: blank_img_def sb_A_def)
qed

section \<open>Address validation: C5\<close>

lemma check_direct_iff:
  "check_direct img in' =
     (if \<exists>a\<in>set (addrs in'). a \<noteq> 0 \<and> \<not> valid_addr img a then Inl (Exit BadDirectAddress) else Inr ())"
  unfolding check_direct_def for_each_unit
  by (auto simp: check_direct_body_def find_None_iff split: option.splits dest!: find_Some_iff [THEN iffD1])

lemma check_indirect_iff:
  "check_indirect img in' =
     (if addrs_NDIRECT in' \<noteq> 0 \<and>
         (\<not> valid_addr img (addrs_NDIRECT in') \<or>
          (\<exists>a\<in>set (map_uints img (addrs_NDIRECT in')). a \<noteq> 0 \<and> \<not> valid_addr img a))
      then Inl (Exit BadIndirectAddress) else Inr ())"
  unfolding check_indirect_def for_each_unit Let_def
  by (auto simp: check_indirect_body_def find_None_iff split: option.splits dest!: find_Some_iff [THEN iffD1])

lemma valid_addr_unat:
  "valid_addr img addr \<longleftrightarrow> 0 < unat addr \<and> unat addr < unat (size' (sb img))"
  by (simp add: valid_addr_def word_less_nat_alt)

text \<open>
  C5: \<open>valid_addr\<close> holds of an address exactly when it is positive and below the
  superblock's \<open>size\<close>. \<open>check_direct\<close> stops with the bad-direct-address message exactly
  when some non-zero direct slot fails \<open>valid_addr\<close>, and \<open>check_indirect\<close> stops with the
  bad-indirect-address message exactly when the indirect slot is non-zero and either it or
  some non-zero word of the indirect block fails \<open>valid_addr\<close>; slots that are 0 are
  skipped. In the loop of \<open>main\<close> an inode of type file, directory or device with such a
  direct slot is reported as a bad direct address, and one whose direct slots pass and
  whose indirect check fails as a bad indirect address.
\<close>

theorem address_validation:
  "(valid_addr img addr \<longleftrightarrow> 0 < unat addr \<and> unat addr < unat (size' (sb img)))
   \<and> check_direct img in' =
       (if \<exists>a\<in>set (addrs in'). a \<noteq> 0 \<and> \<not> valid_addr img a
        then Inl (Exit BadDirectAddress) else Inr ())
   \<and> check_indirect img in' =
       (if addrs_NDIRECT in' \<noteq> 0 \<and>
           (\<not> valid_addr img (addrs_NDIRECT in') \<or>
            (\<exists>a\<in>set (map_uints img (addrs_NDIRECT in')). a \<noteq> 0 \<and> \<not> valid_addr img a))
        then Inl (Exit BadIndirectAddress) else Inr ())
   \<and> (type (inodeblks img i) \<in> {T_FILE, T_DIR, T_DEV} \<longrightarrow>
        (\<exists>a\<in>set (addrs (inodeblks img i)). a \<noteq> 0 \<and> \<not> valid_addr img a) \<longrightarrow>
        main_body img i () = Inl (Exit BadDirectAddress))
   \<and> (type (inodeblks img i) \<in> {T_FILE, T_DIR, T_DEV} \<longrightarrow>
        check_direct img (inodeblks img i) = Inr () \<longrightarrow>
        check_indirect img (inodeblks img i) \<noteq> Inr () \<longrightarrow>
        main_body img i () = Inl (Exit BadIndirectAddress))"
proof (intro conjI impI)
  show "valid_addr img addr \<longleftrightarrow> 0 < unat addr \<and> unat addr < unat (size' (sb img))"
    by (rule valid_addr_unat)
next
  assume "type (inodeblks img i) \<in> {T_FILE, T_DIR, T_DEV}"
    and "\<exists>a\<in>set (addrs (inodeblks img i)). a \<noteq> 0 \<and> \<not> valid_addr img a"
  then show "main_body img i () = Inl (Exit BadDirectAddress)"
    by (auto simp: main_body_def main_body_checks_def Let_def validate_type_def check_direct_iff)
next
  assume "type (inodeblks img i) \<in> {T_FILE, T_DIR, T_DEV}"
    and "check_direct img (inodeblks img i) = Inr ()"
    and "check_indirect img (inodeblks img i) \<noteq> Inr ()"
  then show "main_body img i () = Inl (Exit BadIndirectAddress)"
    by (auto simp: main_body_def main_body_checks_def Let_def validate_type_def check_indirect_iff
        split: if_splits)
qed (simp_all only: check_direct_iff check_indirect_iff)

theorem address_validation_witness:
  "valid_addr bad_indirect_img 5 \<and> \<not> valid_addr bad_indirect_img 16 \<and> \<not> valid_addr bad_indirect_img 0
   \<and> check_direct bad_indirect_img bad_direct_inode = Inl (Exit BadDirectAddress)
   \<and> check_direct bad_indirect_img bad_indirect_inode = Inr ()
   \<and> check_indirect bad_indirect_img bad_indirect_inode = Inl (Exit BadIndirectAddress)
   \<and> main_body bad_indirect_img 2 () = Inl (Exit BadDirectAddress)
   \<and> main_body bad_indirect_img 3 () = Inl (Exit BadIndirectAddress)"
  using address_validation [of bad_indirect_img 5 bad_direct_inode 2]
    address_validation [of bad_indirect_img 16 bad_indirect_inode 3]
    address_validation [of bad_indirect_img 0 bad_indirect_inode 3]
  by (simp add: bad_indirect_img_def bad_direct_inode_def bad_indirect_inode_def blank_img_def
      sb_small_def valid_addr_def free_inode_def)

section \<open>Reference counts: C6\<close>

lemma for_each_opt_skip:
  "(\<And>x s. x \<in> set xs \<Longrightarrow> body x s = Some (Inr s)) \<Longrightarrow> for_each_opt body xs s = Some (Inr s)"
  by (induction xs arbitrary: s) (auto simp: then_do_def)

lemma dir_chk_init_eq:
  assumes "2 \<le> unat (ninodes (sb img))"
  shows "dir_chk_init img = Inr ((replicate (unat (ninodes (sb img))) 0)[0 := 1, 1 := 1])"
  using assms by (simp add: dir_chk_init_def Let_def)

lemma dir_chk_body_eq:
  assumes "n < length inmap"
  shows "dir_chk_body img inmap n () =
     (case spec_reconcile (inodeblks img n) (inmap ! n) of None \<Rightarrow> Inr () | Some e \<Rightarrow> Inl (Exit e))"
  using assms
  by (simp add: dir_chk_body_def Let_def chk_in_use_def chk_in_free_def chk_ref_cnt_def
      chk_dir_once_def spec_reconcile_def)


lemma then_do_Some_Inr:
  "then_do r k = Some (Inr y) \<longleftrightarrow> (\<exists>s. r = Some (Inr s) \<and> k s = Some (Inr y))"
  by (auto simp: then_do_def split: option.splits sum.splits)

lemma for_each_opt_inv_aux:
  "P s \<Longrightarrow> for_each_opt body xs s = Some (Inr r) \<Longrightarrow>
   (\<forall>x\<in>set xs. \<forall>s r. P s \<longrightarrow> body x s = Some (Inr r) \<longrightarrow> P r) \<Longrightarrow> P r"
proof (induction xs arbitrary: s)
  case Nil
  then show ?case by simp
next
  case (Cons x xs)
  from Cons.prems(2) obtain s' where s': "body x s = Some (Inr s')"
    and rest: "for_each_opt body xs s' = Some (Inr r)"
    by (auto simp: then_do_Some_Inr)
  have hd: "P s \<longrightarrow> body x s = Some (Inr s') \<longrightarrow> P s'"
    using Cons.prems(3) [rule_format, of x s s'] by simp
  have tl: "\<forall>x\<in>set xs. \<forall>s r. P s \<longrightarrow> body x s = Some (Inr r) \<longrightarrow> P r"
    using Cons.prems(3) by (meson list.set_intros(2))
  from hd Cons.prems(1) s' have "P s'" by blast
  then show ?case
    by (rule Cons.IH [OF _ rest tl])
qed

lemma for_each_opt_inv:
  assumes "\<And>x s r. x \<in> set xs \<Longrightarrow> P s \<Longrightarrow> body x s = Some (Inr r) \<Longrightarrow> P r"
    and "P s" and "for_each_opt body xs s = Some (Inr r)"
  shows "P r"
  using for_each_opt_inv_aux [of P s body xs r] assms by blast

lemma process_block_length:
  assumes rec: "\<And>d m r. rec d m = Some (Inr r) \<Longrightarrow> length r = length m"
    and run: "process_block rec img addr m = Some (Inr r)"
  shows "length r = length m"
proof (cases "addr = 0")
  case True
  with run show ?thesis by (simp add: process_block_def)
next
  case False
  with run have "for_each_opt
        (\<lambda>de m.
           if inum de = 0 \<or> name de = ''.'' \<or> name de = ''..'' then Some (Inr m)
           else if \<not> unat (inum de) < length m then Some (Inl OutOfBounds)
           else rec (inodeblks img (unat (inum de))) (m[unat (inum de) := m ! unat (inum de) + 1]))
        (map_dirents img addr) m = Some (Inr r)"
    by (simp add: process_block_def)
  then show ?thesis
  proof (rule for_each_opt_inv [where P = "\<lambda>s. length s = length m", rotated 2])
    fix de s t
    assume s: "length s = length m"
      and step: "(if inum de = 0 \<or> name de = ''.'' \<or> name de = ''..'' then Some (Inr s)
           else if \<not> unat (inum de) < length s then Some (Inl OutOfBounds)
           else rec (inodeblks img (unat (inum de))) (s[unat (inum de) := s ! unat (inum de) + 1]))
          = Some (Inr t)"
    show "length t = length m"
    proof (cases "inum de = 0 \<or> name de = ''.'' \<or> name de = ''..''")
      case True
      with step s show ?thesis by simp
    next
      case False
      with step have "rec (inodeblks img (unat (inum de))) (s[unat (inum de) := s ! unat (inum de) + 1])
          = Some (Inr t)"
        by (simp split: if_splits)
      from rec [OF this] s show ?thesis by simp
    qed
  qed simp
qed

lemma traverse_dirs_length:
  assumes "traverse_dirs img d m = Some y"
  shows "\<forall>m'. y = Inr m' \<longrightarrow> length m' = length m"
  using assms
proof (induction rule: traverse_dirs.raw_induct [rotated 1, consumes 1])
  case (1 f img d m y)
  have rec: "\<And>d m r. f img d m = Some (Inr r) \<Longrightarrow> length r = length m"
    using "1.IH" by blast
  have pb: "length r = length s" if "process_block (f img) img a s = Some (Inr r)" for a s r
    using rec that by (rule process_block_length)
  have blocks: "length r = length s"
    if "for_each_opt (process_block (f img) img) xs s = Some (Inr r)" for xs s r
    using that
    by (rule for_each_opt_inv [where P = "\<lambda>t. length t = length s", rotated 2])
      (auto dest: pb)
  show ?case
  proof (intro allI impI)
    fix m' assume y: "y = Inr m'"
    show "length m' = length m"
    proof (cases "type d \<noteq> T_DIR")
      case True
      with "1.hyps" y show ?thesis by simp
    next
      case False
      with "1.hyps" y obtain m1 where
        m1: "for_each_opt (process_block (f img) img) (addrs d) m = Some (Inr m1)"
        and m2: "(if addrs_NDIRECT d \<noteq> 0
                  then for_each_opt (process_block (f img) img) (map_uints img (addrs_NDIRECT d)) m1
                  else Some (Inr m1)) = Some (Inr m')"
        by (auto simp: then_do_Some_Inr Let_def)
      from m2 have "length m' = length m1"
        by (auto split: if_splits dest: blocks)
      with blocks [OF m1] show ?thesis by simp
    qed
  qed
qed

lemma for_each_unit_cong:
  "(\<And>x. x \<in> set xs \<Longrightarrow> body x () = g x) \<Longrightarrow>
   for_each body xs (u::unit) = for_each (\<lambda>x u. g x) xs ()"
  by (induction xs) (auto split: sum.splits)

lemma case_error_neq:
  "((case x of None \<Rightarrow> Inr () | Some e \<Rightarrow> Inl (Exit e)) \<noteq> (Inr () :: unit result)) \<longleftrightarrow> x \<noteq> None"
  by (cases x) simp_all

text \<open>
  C6: after the traversal, \<open>dir_chk\<close> sweeps the inode numbers from 2 up to
  \<open>ninodes - 1\<close> in order and stops at the first one for which a rule of the
  specification applies, with that rule's message; the rules are tried in the order
  in-use-but-unreferenced, referenced-but-free, bad link count of a file, directory
  referenced more than once. A device inode never gets the link-count message.
\<close>

theorem dir_chk_reconcile:
  assumes len: "length inmap = unat (ninodes (sb img))"
  shows "dir_chk_sweep img inmap =
      (case find (\<lambda>n. spec_reconcile (inodeblks img n) (inmap ! n) \<noteq> None)
              [2..<unat (ninodes (sb img))] of
         None \<Rightarrow> Inr ()
       | Some n \<Rightarrow>
           (case spec_reconcile (inodeblks img n) (inmap ! n) of
              None \<Rightarrow> Inr () | Some e \<Rightarrow> Inl (Exit e)))
    \<and> (\<forall>n. 2 \<le> n \<and> n < unat (ninodes (sb img)) \<longrightarrow> type (inodeblks img n) = T_DEV \<longrightarrow>
           dir_chk_body img inmap n () \<noteq> Inl (Exit BadLinkCount))
    \<and> (dir_chk_init img = Inr inmap0 \<longrightarrow>
         traverse_dirs img (inodeblks img 1) inmap0 = Some (Inr inmap) \<longrightarrow>
         dir_chk img = Some (dir_chk_sweep img inmap))"
proof -
  have body: "dir_chk_body img inmap n () =
      (case spec_reconcile (inodeblks img n) (inmap ! n) of None \<Rightarrow> Inr () | Some e \<Rightarrow> Inl (Exit e))"
    if "n \<in> set [2..<unat (ninodes (sb img))]" for n
    using that len by (intro dir_chk_body_eq) simp
  have "dir_chk_sweep img inmap =
      for_each (\<lambda>n u. case spec_reconcile (inodeblks img n) (inmap ! n) of
                        None \<Rightarrow> Inr () | Some e \<Rightarrow> Inl (Exit e))
        [2..<unat (ninodes (sb img))] ()"
    unfolding dir_chk_sweep_def by (rule for_each_unit_cong) (rule body)
  also have "\<dots> =
      (case find (\<lambda>n. spec_reconcile (inodeblks img n) (inmap ! n) \<noteq> None)
              [2..<unat (ninodes (sb img))] of
         None \<Rightarrow> Inr ()
       | Some n \<Rightarrow>
           (case spec_reconcile (inodeblks img n) (inmap ! n) of
              None \<Rightarrow> Inr () | Some e \<Rightarrow> Inl (Exit e)))"
    by (simp add: for_each_unit case_error_neq)
  finally have one: "dir_chk_sweep img inmap =
      (case find (\<lambda>n. spec_reconcile (inodeblks img n) (inmap ! n) \<noteq> None)
              [2..<unat (ninodes (sb img))] of
         None \<Rightarrow> Inr ()
       | Some n \<Rightarrow>
           (case spec_reconcile (inodeblks img n) (inmap ! n) of
              None \<Rightarrow> Inr () | Some e \<Rightarrow> Inl (Exit e)))" .
  have two: "\<forall>n. 2 \<le> n \<and> n < unat (ninodes (sb img)) \<longrightarrow> type (inodeblks img n) = T_DEV \<longrightarrow>
           dir_chk_body img inmap n () \<noteq> Inl (Exit BadLinkCount)"
    using len by (auto simp: dir_chk_body_eq spec_reconcile_def)
  have three: "dir_chk_init img = Inr inmap0 \<longrightarrow>
         traverse_dirs img (inodeblks img 1) inmap0 = Some (Inr inmap) \<longrightarrow>
         dir_chk img = Some (dir_chk_sweep img inmap)"
    by (simp add: dir_chk_def then_do_def)
  from one two three show ?thesis by (intro conjI)
qed

theorem dir_chk_reconcile_witness:
  "dir_chk_sweep recon_img [1, 1, 1, 1] = Inl (Exit BadLinkCount)
   \<and> dir_chk_sweep recon_img [1, 1, 0, 1] = Inl (Exit InodeNotInAnyDirectory)
   \<and> dir_chk_sweep recon_img [1, 1, 2, 1] = Inr ()
   \<and> dir_chk_sweep recon_img [1, 1, 2, 0] = Inl (Exit InodeNotInAnyDirectory)"
proof -
  have len: "length xs = 4 \<Longrightarrow> length xs = unat (ninodes (sb recon_img))" for xs :: "int list"
    by (simp add: recon_img_def blank_img_def sb_small_def)
  have upt: "[2..<unat (ninodes (sb recon_img))] = [2, 3]"
    by (simp add: recon_img_def blank_img_def sb_small_def upt_rec)
  show ?thesis
    using dir_chk_reconcile [OF len, of "[1, 1, 1, 1]"] dir_chk_reconcile [OF len, of "[1, 1, 0, 1]"]
      dir_chk_reconcile [OF len, of "[1, 1, 2, 1]"] dir_chk_reconcile [OF len, of "[1, 1, 2, 0]"]
    unfolding upt
    by (simp add: recon_img_def blank_img_def spec_reconcile_def free_inode_def)
qed

section \<open>Directory well-formedness: C1\<close>

lemma process_entries_body_loop:
  "for_each (process_entries_body n) es (d, dd) =
     (case find (\<lambda>de. \<not> entry_ok n de) es of
        None \<Rightarrow> Inr (d \<or> (\<exists>de\<in>set es. name de = ''.''), dd \<or> (\<exists>de\<in>set es. name de = ''..''))
      | Some de \<Rightarrow> Inl (Exit (if name de = ''.'' then MalformedDirectory else MissingRoot)))"
proof (induction es arbitrary: d dd)
  case Nil
  show ?case by simp
next
  case (Cons e es)
  show ?case
  proof (cases "entry_ok n e")
    case False
    then show ?thesis
      by (auto simp: process_entries_body_def entry_ok_def split: if_splits)
  next
    case True
    then have step: "process_entries_body n e (d, dd) = Inr (d \<or> name e = ''.'', dd \<or> name e = ''..'')"
      by (auto simp: process_entries_body_def entry_ok_def split: if_splits)
    show ?thesis
      using True by (simp add: step Cons.IH disj_ac split: option.splits) 
  qed
qed


lemma ex_le_Suc: "(\<exists>k\<le>Suc n. P k) \<longleftrightarrow> P 0 \<or> (\<exists>j\<le>n. P (Suc j))"
proof
  assume "\<exists>k\<le>Suc n. P k"
  then obtain k where k: "k \<le> Suc n" "P k" by blast
  then show "P 0 \<or> (\<exists>j\<le>n. P (Suc j))"
    by (cases k) auto
next
  assume "P 0 \<or> (\<exists>j\<le>n. P (Suc j))"
  then show "\<exists>k\<le>Suc n. P k" by auto
qed

lemma validate_dir_loop_accepts:
  assumes "\<not> (d \<and> dd)"
  shows "(\<exists>st. validate_dir_loop img n as (d, dd) = Inr st \<and> fst st \<and> snd st) \<longleftrightarrow>
     (\<exists>k\<le>length (filter (\<lambda>a. a \<noteq> 0) as).
        (\<forall>de\<in>set (concat (take k (map (map_dirents img) (filter (\<lambda>a. a \<noteq> 0) as)))). entry_ok n de) \<and>
        (d \<or> (\<exists>de\<in>set (concat (take k (map (map_dirents img) (filter (\<lambda>a. a \<noteq> 0) as)))). name de = ''.'')) \<and>
        (dd \<or> (\<exists>de\<in>set (concat (take k (map (map_dirents img) (filter (\<lambda>a. a \<noteq> 0) as)))). name de = ''..'')))"
  using assms
proof (induction as arbitrary: d dd)
  case Nil
  then show ?case by auto
next
  case (Cons a as)
  let ?bs = "map (map_dirents img) (filter (\<lambda>a. a \<noteq> 0) as)"
  let ?b = "map_dirents img a"
  show ?case
  proof (cases "a = 0")
    case True
    with Cons show ?thesis by simp
  next
    case False
    show ?thesis
    proof (cases "find (\<lambda>de. \<not> entry_ok n de) ?b")
      case (Some bad)
      then have bad: "bad \<in> set ?b" "\<not> entry_ok n bad"
        by (auto simp: find_Some_iff)
      have "\<not> (\<exists>st. validate_dir_loop img n (a # as) (d, dd) = Inr st \<and> fst st \<and> snd st)"
        using False Some by (simp add: process_entries_def process_entries_body_loop)
      moreover have "\<not> (\<exists>k\<le>length (filter (\<lambda>a. a \<noteq> 0) (a # as)).
        (\<forall>de\<in>set (concat (take k (map (map_dirents img) (filter (\<lambda>a. a \<noteq> 0) (a # as))))). entry_ok n de) \<and>
        (d \<or> (\<exists>de\<in>set (concat (take k (map (map_dirents img) (filter (\<lambda>a. a \<noteq> 0) (a # as))))). name de = ''.'')) \<and>
        (dd \<or> (\<exists>de\<in>set (concat (take k (map (map_dirents img) (filter (\<lambda>a. a \<noteq> 0) (a # as))))). name de = ''..'')))"
        using False bad Cons.prems by (auto simp: ex_le_Suc)
      ultimately show ?thesis by blast
    next
      case None
      then have ok: "\<forall>de\<in>set ?b. entry_ok n de"
        by (auto simp: find_None_iff)
      let ?d' = "d \<or> (\<exists>de\<in>set ?b. name de = ''.'')"
      let ?dd' = "dd \<or> (\<exists>de\<in>set ?b. name de = ''..'')"
      have pe: "process_entries img a n (d, dd) = Inr (?d', ?dd')"
        using None by (simp add: process_entries_def process_entries_body_loop)
      show ?thesis
      proof (cases "?d' \<and> ?dd'")
        case True
        have "\<exists>st. validate_dir_loop img n (a # as) (d, dd) = Inr st \<and> fst st \<and> snd st"
          using False pe True by simp
        moreover have "\<exists>k\<le>length (filter (\<lambda>a. a \<noteq> 0) (a # as)).
          (\<forall>de\<in>set (concat (take k (map (map_dirents img) (filter (\<lambda>a. a \<noteq> 0) (a # as))))). entry_ok n de) \<and>
          (d \<or> (\<exists>de\<in>set (concat (take k (map (map_dirents img) (filter (\<lambda>a. a \<noteq> 0) (a # as))))). name de = ''.'')) \<and>
          (dd \<or> (\<exists>de\<in>set (concat (take k (map (map_dirents img) (filter (\<lambda>a. a \<noteq> 0) (a # as))))). name de = ''..''))"
          using False ok True by (intro exI [of _ "Suc 0"]) simp
        ultimately show ?thesis by blast
      next
        case nb: False
        have "validate_dir_loop img n (a # as) (d, dd) = validate_dir_loop img n as (?d', ?dd')"
        proof -
          define d' dd' where "d' = ?d'" and "dd' = ?dd'"
          have "process_entries img a n (d, dd) = Inr (d', dd')"
            using pe unfolding d'_def dd'_def .
          moreover have "\<not> (d' \<and> dd')"
            using nb unfolding d'_def dd'_def .
          ultimately have "validate_dir_loop img n (a # as) (d, dd) = validate_dir_loop img n as (d', dd')"
            using False by auto
          then show ?thesis by (simp only: d'_def dd'_def)
        qed
        moreover note Cons.IH [OF nb]
        moreover have "(\<exists>k\<le>length (filter (\<lambda>a. a \<noteq> 0) (a # as)).
          (\<forall>de\<in>set (concat (take k (map (map_dirents img) (filter (\<lambda>a. a \<noteq> 0) (a # as))))). entry_ok n de) \<and>
          (d \<or> (\<exists>de\<in>set (concat (take k (map (map_dirents img) (filter (\<lambda>a. a \<noteq> 0) (a # as))))). name de = ''.'')) \<and>
          (dd \<or> (\<exists>de\<in>set (concat (take k (map (map_dirents img) (filter (\<lambda>a. a \<noteq> 0) (a # as))))). name de = ''..'')))
          \<longleftrightarrow> (\<exists>k\<le>length (filter (\<lambda>a. a \<noteq> 0) as).
          (\<forall>de\<in>set (concat (take k ?bs)). entry_ok n de) \<and>
          (?d' \<or> (\<exists>de\<in>set (concat (take k ?bs)). name de = ''.'')) \<and>
          (?dd' \<or> (\<exists>de\<in>set (concat (take k ?bs)). name de = ''..'')))"
          using False ok Cons.prems by (simp add: ex_le_Suc ball_Un bex_Un disj_ac) blast
        ultimately show ?thesis by simp
      qed
    qed
  qed
qed


lemma validate_dir_loop_error:
  assumes "validate_dir_loop img n as st = Inl e"
  shows "(e = Exit MalformedDirectory \<and>
          (\<exists>de\<in>set (concat (map (map_dirents img) (filter (\<lambda>a. a \<noteq> 0) as))).
             name de = ''.'' \<and> unat (inum de) \<noteq> n))
       \<or> (e = Exit MissingRoot \<and>
          (\<exists>de\<in>set (concat (map (map_dirents img) (filter (\<lambda>a. a \<noteq> 0) as))).
             name de = ''..'' \<and> \<not> entry_ok n de))"
  using assms
proof (induction as arbitrary: st)
  case Nil
  then show ?case by simp
next
  case (Cons a as)
  show ?case
  proof (cases "a = 0")
    case True
    with Cons show ?thesis by simp
  next
    case False
    obtain d dd where st: "st = (d, dd)" by (cases st)
    show ?thesis
    proof (cases "find (\<lambda>de. \<not> entry_ok n de) (map_dirents img a)")
      case (Some bad)
      then have bad: "bad \<in> set (map_dirents img a)" "\<not> entry_ok n bad"
        by (auto simp: find_Some_iff)
      have e: "e = Exit (if name bad = ''.'' then MalformedDirectory else MissingRoot)"
        using Cons.prems False Some by (simp add: st process_entries_def process_entries_body_loop)
      show ?thesis
      proof (cases "name bad = ''.''")
        case True
        with bad e False show ?thesis
          by (auto simp: entry_ok_def)
      next
        case nd: False
        with bad(2) have "name bad = ''..''"
          by (auto simp: entry_ok_def)
        with bad e False nd show ?thesis
          by auto
      qed
    next
      case None
      then obtain st' where pe: "process_entries img a n st = Inr st'"
        by (simp add: st process_entries_def process_entries_body_loop)
      with Cons.prems False have "validate_dir_loop img n as st' = Inl e"
        by (simp split: if_splits)
      from Cons.IH [OF this] False show ?thesis by auto
    qed
  qed
qed

lemma process_entries_pad:
  "for_each (process_entries_body n) (replicate k empty_dirent) st = Inr st"
  by (rule for_each_replicate_skip) (simp add: process_entries_body_def empty_dirent_def split: prod.splits)

lemma validate_dir_loop_zeros:
  "validate_dir_loop img n (replicate k 0) st = Inr st"
  by (induction k) simp_all

text \<open>
  C1, as the specification states it, fails. \<^verbatim>\<open>validate_dir\<close> sets a flag for "." and a
  flag for ".." and does not count the entries: the root below has two entries named "."
  and is accepted. A ".." entry that breaks the parent rule is reported with the message
  "root directory does not exist", not as a malformed directory: so is the directory
  inode 2 whose ".." points at itself.
\<close>

theorem validate_dir_counterexample:
  "validate_dir two_dots_img (inodeblks two_dots_img 1) 1 = Inr ()
   \<and> length (filter (\<lambda>de. name de = ''.'')
        (concat (dir_blocks two_dots_img (inodeblks two_dots_img 1)))) = 2
   \<and> validate_dir self_parent_img (inodeblks self_parent_img 2) 2 = Inl (Exit MissingRoot)"
proof -
  have "validate_dir two_dots_img (inodeblks two_dots_img 1) 1 = Inr ()"
    by (simp add: validate_dir_def two_dots_img_def dir_inode_at_def blank_img_def
        process_entries_def process_entries_body_def process_entries_pad)
  moreover have "length (filter (\<lambda>de. name de = ''.'')
        (concat (dir_blocks two_dots_img (inodeblks two_dots_img 1)))) = 2"
    by (simp add: two_dots_img_def dir_inode_at_def blank_img_def dir_blocks_def empty_dirent_def)
  moreover have "validate_dir self_parent_img (inodeblks self_parent_img 2) 2 = Inl (Exit MissingRoot)"
    by (simp add: validate_dir_def self_parent_img_def dir_inode_at_def blank_img_def
        process_entries_def process_entries_body_def process_entries_pad)
  ultimately show ?thesis by blast
qed

lemma find_append:
  "find P (xs @ ys) = (case find P xs of None \<Rightarrow> find P ys | Some x \<Rightarrow> Some x)"
  by (induction xs) simp_all

lemma find_map_list:
  "find P (map f xs) = map_option f (find (\<lambda>x. P (f x)) xs)"
  by (induction xs) simp_all

lemma find_upt_Suc:
  "find P [0..<Suc n] = (if P 0 then Some 0 else map_option Suc (find (\<lambda>k. P (Suc k)) [0..<n]))"
proof -
  have "[0..<Suc n] = 0 # map Suc [0..<n]"
    by (simp add: map_Suc_upt upt_conv_Cons)
  then show ?thesis
    by (simp add: find_map_list del: upt_Suc)
qed

text \<open>The length of the scan when the entries \<open>pre\<close> were read before the blocks \<open>bs\<close>.\<close>

lemma scan_len_Cons:
  assumes "\<not> has_dots pre"
  shows "(case find (\<lambda>k. has_dots (pre @ concat (take k (b # bs)))) [0..<length (b # bs)] of
            None \<Rightarrow> length (b # bs) | Some k \<Rightarrow> k) =
         (if has_dots (pre @ b) then 1
          else Suc (case find (\<lambda>k. has_dots ((pre @ b) @ concat (take k bs))) [0..<length bs] of
                      None \<Rightarrow> length bs | Some k \<Rightarrow> k))"
proof (cases "has_dots (pre @ b)")
  case True
  show ?thesis
  proof (cases bs)
    case Nil
    with assms True show ?thesis by simp
  next
    case (Cons c cs)
    have "[0..<length (c # cs)] = 0 # [1..<length (c # cs)]"
      by (simp add: upt_conv_Cons del: upt_Suc)
    then have "find (\<lambda>k. has_dots (pre @ b @ concat (take k bs))) [0..<length bs] = Some 0"
      using True unfolding Cons by (simp del: upt_Suc)
    with assms True show ?thesis
      unfolding length_Cons find_upt_Suc by simp
  qed
next
  case False
  have "find (\<lambda>k. has_dots (pre @ b @ concat (take k bs))) [0..<length bs]
      = find (\<lambda>k. has_dots ((pre @ b) @ concat (take k bs))) [0..<length bs]"
    by simp
  with assms False show ?thesis
    unfolding length_Cons find_upt_Suc
    by (simp split: option.splits)
qed

lemma entry_bad_name:
  "\<not> entry_ok n de \<Longrightarrow> name de = ''.'' \<or> name de = ''..''"
  by (auto simp: entry_ok_def)

lemma process_entries_offence:
  "process_entries img a n (d, dd) =
     (case first_offence n (map_dirents img a) of
        None \<Rightarrow> Inr (d \<or> (\<exists>de\<in>set (map_dirents img a). name de = ''.''),
                      dd \<or> (\<exists>de\<in>set (map_dirents img a). name de = ''..''))
      | Some e \<Rightarrow> Inl (Exit e))"
proof (cases "find (\<lambda>de. \<not> entry_ok n de) (map_dirents img a)")
  case None
  then show ?thesis
    by (simp add: process_entries_def process_entries_body_loop first_offence_def)
next
  case (Some de)
  then have "\<not> entry_ok n de"
    by (auto simp: find_Some_iff)
  from entry_bad_name [OF this] Some show ?thesis
    by (auto simp: process_entries_def process_entries_body_loop first_offence_def)
qed

lemma first_offence_append:
  "first_offence n (xs @ ys) = (case first_offence n xs of None \<Rightarrow> first_offence n ys | Some e \<Rightarrow> Some e)"
  by (cases "find (\<lambda>de. \<not> entry_ok n de) xs") (simp_all add: first_offence_def find_append)

lemma validate_dir_loop_scan:
  assumes "\<not> has_dots pre"
  shows "validate_dir_loop img n as (\<exists>de\<in>set pre. name de = ''.'', \<exists>de\<in>set pre. name de = ''..'') =
     (case first_offence n
         (concat (take (case find (\<lambda>k. has_dots (pre @ concat (take k (map (map_dirents img) (filter (\<lambda>a. a \<noteq> 0) as)))))
                               [0..<length (map (map_dirents img) (filter (\<lambda>a. a \<noteq> 0) as))] of
                          None \<Rightarrow> length (map (map_dirents img) (filter (\<lambda>a. a \<noteq> 0) as)) | Some k \<Rightarrow> k)
                    (map (map_dirents img) (filter (\<lambda>a. a \<noteq> 0) as)))) of
        Some e \<Rightarrow> Inl (Exit e)
      | None \<Rightarrow>
          Inr (\<exists>de\<in>set (pre @ concat (take (case find (\<lambda>k. has_dots (pre @ concat (take k (map (map_dirents img) (filter (\<lambda>a. a \<noteq> 0) as)))))
                               [0..<length (map (map_dirents img) (filter (\<lambda>a. a \<noteq> 0) as))] of
                          None \<Rightarrow> length (map (map_dirents img) (filter (\<lambda>a. a \<noteq> 0) as)) | Some k \<Rightarrow> k)
                    (map (map_dirents img) (filter (\<lambda>a. a \<noteq> 0) as)))). name de = ''.'',
               \<exists>de\<in>set (pre @ concat (take (case find (\<lambda>k. has_dots (pre @ concat (take k (map (map_dirents img) (filter (\<lambda>a. a \<noteq> 0) as)))))
                               [0..<length (map (map_dirents img) (filter (\<lambda>a. a \<noteq> 0) as))] of
                          None \<Rightarrow> length (map (map_dirents img) (filter (\<lambda>a. a \<noteq> 0) as)) | Some k \<Rightarrow> k)
                    (map (map_dirents img) (filter (\<lambda>a. a \<noteq> 0) as)))). name de = ''..''))"
  using assms
proof (induction as arbitrary: pre)
  case Nil
  show ?case by (simp add: first_offence_def)
next
  case (Cons a as)
  let ?bs = "map (map_dirents img) (filter (\<lambda>a. a \<noteq> 0) as)"
  let ?b = "map_dirents img a"
  show ?case
  proof (cases "a = 0")
    case True
    then have eq: "filter (\<lambda>a. a \<noteq> 0) (a # as) = filter (\<lambda>a. a \<noteq> 0) as"
      by simp
    from True have "validate_dir_loop img n (a # as) (\<exists>de\<in>set pre. name de = ''.'', \<exists>de\<in>set pre. name de = ''..'')
        = validate_dir_loop img n as (\<exists>de\<in>set pre. name de = ''.'', \<exists>de\<in>set pre. name de = ''..'')"
      by simp
    then show ?thesis
      unfolding eq using Cons.IH [OF Cons.prems] by simp
  next
    case False
    then have eq: "map (map_dirents img) (filter (\<lambda>a. a \<noteq> 0) (a # as)) = ?b # ?bs"
      by simp
    note len = scan_len_Cons [OF Cons.prems, of ?b ?bs]
    show ?thesis
    proof (cases "first_offence n ?b")
      case (Some e)
      with False show ?thesis
        unfolding eq len by (simp add: process_entries_offence first_offence_append)
    next
      case None
      show ?thesis
      proof (cases "has_dots (pre @ ?b)")
        case True
        from True False None show ?thesis
          unfolding eq len by (simp add: process_entries_offence has_dots_def bex_Un)
      next
        case nd: False
        have flags: "((\<exists>de\<in>set pre. name de = ''.'') \<or> (\<exists>de\<in>set ?b. name de = ''.'')) = (\<exists>de\<in>set (pre @ ?b). name de = ''.'')"
          "((\<exists>de\<in>set pre. name de = ''..'') \<or> (\<exists>de\<in>set ?b. name de = ''..'')) = (\<exists>de\<in>set (pre @ ?b). name de = ''..'')"
          by auto
        have step: "validate_dir_loop img n (a # as) (\<exists>de\<in>set pre. name de = ''.'', \<exists>de\<in>set pre. name de = ''..'')
            = validate_dir_loop img n as (\<exists>de\<in>set (pre @ ?b). name de = ''.'', \<exists>de\<in>set (pre @ ?b). name de = ''..'')"
        proof -
          define D DD where "D = (\<exists>de\<in>set (pre @ ?b). name de = ''.'')"
            and "DD = (\<exists>de\<in>set (pre @ ?b). name de = ''..'')"
          have "\<not> (D \<and> DD)"
            using nd by (simp add: has_dots_def D_def DD_def)
          with False None show ?thesis
            unfolding validate_dir_loop.simps process_entries_offence flags
            unfolding D_def [symmetric] DD_def [symmetric] by auto
        qed
        have len2: "(case find (\<lambda>k. has_dots (pre @ concat (take k (?b # ?bs)))) [0..<length (?b # ?bs)] of
                       None \<Rightarrow> length (?b # ?bs) | Some k \<Rightarrow> k) =
                    Suc (case find (\<lambda>k. has_dots ((pre @ ?b) @ concat (take k ?bs))) [0..<length ?bs] of
                           None \<Rightarrow> length ?bs | Some k \<Rightarrow> k)"
          using len nd by simp
        have cat: "concat (take (Suc k) (?b # ?bs)) = ?b @ concat (take k ?bs)" for k
          by simp
        have off: "first_offence n (?b @ es) = first_offence n es" for es
          using None by (simp add: first_offence_append)
        show ?thesis
          unfolding step Cons.IH [OF nd] eq len2 cat off append_assoc ..
      qed
    qed
  qed
qed

lemma validate_dir_scanned:
  "validate_dir img in' n =
     (case first_offence n (scanned (dir_blocks img in')) of
        Some e \<Rightarrow> Inl (Exit e)
      | None \<Rightarrow> if has_dots (scanned (dir_blocks img in')) then Inr () else Inl (Exit MalformedDirectory))"
proof -
  let ?bs = "map (map_dirents img) (filter (\<lambda>a. a \<noteq> 0) (addrs in'))"
  have nd: "\<not> has_dots []"
    by (simp add: has_dots_def)
  have flags: "(\<exists>de\<in>set []. name de = ''.'') = False" "(\<exists>de\<in>set []. name de = ''..'') = False"
    by simp_all
  have len: "(case find (\<lambda>k. has_dots (concat (take k ?bs))) [0..<length ?bs] of
                None \<Rightarrow> length ?bs | Some k \<Rightarrow> k) = scan_len ?bs"
    by (simp add: scan_len_def)
  have sc: "concat (take (scan_len ?bs) ?bs) = scanned (dir_blocks img in')"
    by (simp add: scanned_def dir_blocks_def)
  have loop: "validate_dir_loop img n (addrs in') (False, False) =
      (case first_offence n (scanned (dir_blocks img in')) of
         Some e \<Rightarrow> Inl (Exit e)
       | None \<Rightarrow> Inr (\<exists>de\<in>set (scanned (dir_blocks img in')). name de = ''.'',
                     \<exists>de\<in>set (scanned (dir_blocks img in')). name de = ''..''))"
    using validate_dir_loop_scan [OF nd, of img n "addrs in'"]
    unfolding append_Nil flags unfolding len unfolding sc .
  show ?thesis
    unfolding validate_dir_def loop
    by (cases "first_offence n (scanned (dir_blocks img in'))") (auto simp: has_dots_def)
qed

text \<open>
  C1, amended: \<^verbatim>\<open>validate_dir\<close> scans the blocks of the non-zero direct slots in slot
  order, up to and including the first block by which an entry named "." and an entry named
  ".." have both been met, and all of them when there is no such block. It accepts the
  inode if and only if some initial run of these blocks holds an entry named "." and an
  entry named "..", and in that run every entry named "." has the inode's own number and
  every entry named ".." obeys the parent rule (for inode 1 it points at inode 1, for any
  other inode at a different number). The outcome is decided by the first entry of the
  scanned blocks that fails: an entry named "." with another number is reported as a
  malformed directory, an entry named ".." that breaks the parent rule is reported with
  the root-directory message; when no scanned entry fails, the inode is accepted if both
  names were met and is reported as a malformed directory if not. In the sweep of \<^verbatim>\<open>main\<close>
  this is the outcome for every directory inode, the root included, whose addresses pass.
\<close>

theorem validate_dir_accepts:
  "(validate_dir img in' n = Inr () \<longleftrightarrow>
      (\<exists>k\<le>length (dir_blocks img in'). wellformed_upto n (dir_blocks img in') k))
   \<and> validate_dir img in' n =
       (case first_offence n (scanned (dir_blocks img in')) of
          Some e \<Rightarrow> Inl (Exit e)
        | None \<Rightarrow>
            if has_dots (scanned (dir_blocks img in')) then Inr () else Inl (Exit MalformedDirectory))
   \<and> (type (inodeblks img i) = T_DIR \<and> check_direct img (inodeblks img i) = Inr ()
        \<and> check_indirect img (inodeblks img i) = Inr ()
        \<longrightarrow> main_body_checks img i = validate_dir img (inodeblks img i) i)"
proof (intro conjI impI)
  have "validate_dir img in' n = Inr () \<longleftrightarrow>
      (\<exists>st. validate_dir_loop img n (addrs in') (False, False) = Inr st \<and> fst st \<and> snd st)"
    by (auto simp: validate_dir_def split: sum.splits)
  also have "\<dots> \<longleftrightarrow> (\<exists>k\<le>length (dir_blocks img in'). wellformed_upto n (dir_blocks img in') k)"
    by (subst validate_dir_loop_accepts) (simp_all add: dir_blocks_def wellformed_upto_def)
  finally show "validate_dir img in' n = Inr () \<longleftrightarrow>
      (\<exists>k\<le>length (dir_blocks img in'). wellformed_upto n (dir_blocks img in') k)" .
next
  show "validate_dir img in' n =
       (case first_offence n (scanned (dir_blocks img in')) of
          Some e \<Rightarrow> Inl (Exit e)
        | None \<Rightarrow>
            if has_dots (scanned (dir_blocks img in')) then Inr () else Inl (Exit MalformedDirectory))"
    by (rule validate_dir_scanned)
next
  assume "type (inodeblks img i) = T_DIR \<and> check_direct img (inodeblks img i) = Inr ()
        \<and> check_indirect img (inodeblks img i) = Inr ()"
  then show "main_body_checks img i = validate_dir img (inodeblks img i) i"
    by (auto simp: main_body_checks_def validate_type_def Let_def)
qed

theorem validate_dir_accepts_witness:
  "wellformed_upto 1 (dir_blocks two_dots_img (inodeblks two_dots_img 1)) 1
   \<and> validate_dir two_dots_img (inodeblks two_dots_img 1) 1 = Inr ()
   \<and> type (inodeblks two_dots_img 1) = T_DIR
   \<and> check_direct two_dots_img (inodeblks two_dots_img 1) = Inr ()
   \<and> check_indirect two_dots_img (inodeblks two_dots_img 1) = Inr ()
   \<and> main_body_checks two_dots_img 1 = Inr ()
   \<and> first_offence 1 (scanned (dir_blocks scenario_E_img (inodeblks scenario_E_img 1)))
        = Some MalformedDirectory
   \<and> validate_dir scenario_E_img (inodeblks scenario_E_img 1) 1 = Inl (Exit MalformedDirectory)
   \<and> first_offence 2 (scanned (dir_blocks self_parent_img (inodeblks self_parent_img 2)))
        = Some MissingRoot
   \<and> validate_dir self_parent_img (inodeblks self_parent_img 2) 2 = Inl (Exit MissingRoot)"
proof -
  have w: "wellformed_upto 1 (dir_blocks two_dots_img (inodeblks two_dots_img 1)) 1"
    by (simp add: wellformed_upto_def dir_blocks_def two_dots_img_def dir_inode_at_def blank_img_def
        entry_ok_def empty_dirent_def)
  have len: "(1::nat) \<le> length (dir_blocks two_dots_img (inodeblks two_dots_img 1))"
    by (simp add: dir_blocks_def two_dots_img_def dir_inode_at_def blank_img_def)
  have acc: "validate_dir two_dots_img (inodeblks two_dots_img 1) 1 = Inr ()"
    using validate_dir_accepts [of two_dots_img "inodeblks two_dots_img 1" 1] w len by blast
  have pass: "type (inodeblks two_dots_img 1) = T_DIR
      \<and> check_direct two_dots_img (inodeblks two_dots_img 1) = Inr ()
      \<and> check_indirect two_dots_img (inodeblks two_dots_img 1) = Inr ()"
    by (simp add: two_dots_img_def dir_inode_at_def blank_img_def sb_small_def
        check_direct_iff check_indirect_iff valid_addr_def)
  with validate_dir_accepts [of two_dots_img "inodeblks two_dots_img 1" 1 1] acc
  have run: "main_body_checks two_dots_img 1 = Inr ()"
    by simp
  have one: "[0..<Suc 0] = [0]" by simp
  have E: "first_offence 1 (scanned (dir_blocks scenario_E_img (inodeblks scenario_E_img 1)))
      = Some MalformedDirectory"
    by (simp add: first_offence_def scanned_def scan_len_def has_dots_def dir_blocks_def
        scenario_E_img_def dir_inode_at_def blank_img_def entry_ok_def)
  have P: "first_offence 2 (scanned (dir_blocks self_parent_img (inodeblks self_parent_img 2)))
      = Some MissingRoot"
    by (simp add: first_offence_def scanned_def scan_len_def has_dots_def dir_blocks_def
        self_parent_img_def dir_inode_at_def blank_img_def entry_ok_def)
  from validate_dir_accepts [of scenario_E_img "inodeblks scenario_E_img 1" 1] E
  have E': "validate_dir scenario_E_img (inodeblks scenario_E_img 1) 1 = Inl (Exit MalformedDirectory)"
    by simp
  from validate_dir_accepts [of self_parent_img "inodeblks self_parent_img 2" 2] P
  have P': "validate_dir self_parent_img (inodeblks self_parent_img 2) 2 = Inl (Exit MissingRoot)"
    by simp
  from w acc pass run E E' P P' show ?thesis by blast
qed

section \<open>Duplicate use: C2\<close>

lemma for_each_concat:
  "for_each (\<lambda>i. for_each body (f i)) is s = for_each body (concat (map f is)) s"
  by (induction "is" arbitrary: s) (auto simp: for_each_append split: sum.splits)

lemma blk_usage_chk_slots:
  "for_each (\<lambda>addr uc. blk_usage_chk img uc fb t addr) xs uc =
   for_each (\<lambda>ta uc. blk_usage_chk img uc fb (fst ta) (snd ta))
     (map (Pair t) (filter (\<lambda>addr. addr \<noteq> 0) xs)) uc"
proof (induction xs arbitrary: uc)
  case Nil
  show ?case by simp
next
  case (Cons x xs)
  show ?case
  proof (cases "x = 0")
    case True
    then have "blk_usage_chk img uc fb t x = Inr uc"
      by (simp add: blk_usage_chk_def)
    with True Cons show ?thesis by simp
  next
    case False
    with Cons show ?thesis by (simp split: sum.splits)
  qed
qed

lemma addrs_chk_inode_refs:
  "addrs_chk_inode img in' uc =
   for_each (\<lambda>ta uc. blk_usage_chk img uc (firstblk img) (fst ta) (snd ta)) (inode_refs img in') uc"
  by (simp add: addrs_chk_inode_def inode_refs_def for_each_append blk_usage_chk_slots Let_def
      split: sum.splits)

lemma addrs_chk_refs:
  "addrs_chk img =
     (case for_each (\<lambda>ta uc. blk_usage_chk img uc (firstblk img) (fst ta) (snd ta)) (block_refs img)
             (replicate (unat (nblocks (sb img))) 0) of
        Inl e \<Rightarrow> Inl e | Inr uc \<Rightarrow> Inr ())"
proof -
  have "(\<lambda>i. addrs_chk_inode img (inodeblks img i)) =
    (\<lambda>i. for_each (\<lambda>ta uc. blk_usage_chk img uc (firstblk img) (fst ta) (snd ta))
            (inode_refs img (inodeblks img i)))"
    by (intro ext) (rule addrs_chk_inode_refs)
  then show ?thesis
    by (simp add: addrs_chk_def block_refs_def for_each_concat)
qed

lemma block_refs_nonzero: "(t, a) \<in> set (block_refs img) \<Longrightarrow> a \<noteq> 0"
  by (auto simp: block_refs_def inode_refs_def split: if_splits)


lemma for_each_inv:
  "P s \<Longrightarrow> for_each body xs s = Inr r \<Longrightarrow>
   (\<forall>x\<in>set xs. \<forall>s r. P s \<longrightarrow> body x s = Inr r \<longrightarrow> P r) \<Longrightarrow> P r"
proof (induction xs arbitrary: s)
  case Nil
  then show ?case by simp
next
  case (Cons x xs)
  from Cons.prems(2) obtain s' where s': "body x s = Inr s'"
    and rest: "for_each body xs s' = Inr r"
    by (auto split: sum.splits)
  have hd: "P s \<longrightarrow> body x s = Inr s' \<longrightarrow> P s'"
    using Cons.prems(3) [rule_format, of x s s'] by simp
  have tl: "\<forall>x\<in>set xs. \<forall>s r. P s \<longrightarrow> body x s = Inr r \<longrightarrow> P r"
    using Cons.prems(3) by (meson list.set_intros(2))
  from hd Cons.prems(1) s' have "P s'" by blast
  then show ?case
    by (rule Cons.IH [OF _ rest tl])
qed

lemma blk_usage_chk_length:
  "blk_usage_chk img uc fb t a = Inr uc' \<Longrightarrow> length uc' = length uc"
  by (auto simp: blk_usage_chk_def Let_def split: if_splits)

lemma blk_usage_scan_length:
  assumes "for_each (\<lambda>ta uc. blk_usage_chk img uc fb (fst ta) (snd ta)) refs uc = Inr uc'"
  shows "length uc' = length uc"
  by (rule for_each_inv [where P = "\<lambda>s. length s = length uc", OF _ assms])
    (auto dest: blk_usage_chk_length)

lemma blk_usage_chk_step:
  assumes inv: "counts_of n fb seen uc" and nz: "a \<noteq> 0"
  shows "blk_usage_chk img uc fb t a =
      (if \<not> unat (a - fb) < n then Inl OutOfBounds
       else if a \<in> seen then Inl (Exit (DuplicateBlockUse t))
       else Inr (uc[unat (a - fb) := 1]))"
    and "unat (a - fb) < n \<Longrightarrow> a \<notin> seen \<Longrightarrow> counts_of n fb (insert a seen) (uc[unat (a - fb) := 1])"
proof -
  have len: "length uc = n" using inv by (simp add: counts_of_def)
  have val: "uc ! unat (a - fb) = (if a \<in> seen then 1 else 0)" if "unat (a - fb) < n"
  proof -
    have "a' = a" if "unat (a' - fb) = unat (a - fb)" for a'
    proof -
      from that have "a' - fb = a - fb" by (simp add: word_unat_eq_iff)
      then show ?thesis by simp
    qed
    then have "(\<exists>a'\<in>seen. unat (a' - fb) = unat (a - fb)) \<longleftrightarrow> a \<in> seen"
      by auto
    with inv that show ?thesis by (simp add: counts_of_def)
  qed
  show "blk_usage_chk img uc fb t a =
      (if \<not> unat (a - fb) < n then Inl OutOfBounds
       else if a \<in> seen then Inl (Exit (DuplicateBlockUse t))
       else Inr (uc[unat (a - fb) := 1]))"
    using nz len val by (simp add: blk_usage_chk_def Let_def)
  show "counts_of n fb (insert a seen) (uc[unat (a - fb) := 1])"
    if "unat (a - fb) < n" "a \<notin> seen"
    using inv that by (auto simp: counts_of_def nth_list_update)
qed


lemma blk_usage_scan:
  assumes "counts_of n fb seen uc" and "\<forall>ta\<in>set refs. snd ta \<noteq> 0"
  shows "((\<exists>uc'. for_each (\<lambda>ta uc. blk_usage_chk img uc fb (fst ta) (snd ta)) refs uc = Inr uc') \<longleftrightarrow>
          (\<forall>ta\<in>set refs. unat (snd ta - fb) < n) \<and> distinct (map snd refs) \<and> snd ` set refs \<inter> seen = {})
    \<and> (\<forall>e. for_each (\<lambda>ta uc. blk_usage_chk img uc fb (fst ta) (snd ta)) refs uc = Inl (Exit e) \<longrightarrow>
          (\<exists>t. e = DuplicateBlockUse t) \<and> \<not> (distinct (map snd refs) \<and> snd ` set refs \<inter> seen = {}))
    \<and> (for_each (\<lambda>ta uc. blk_usage_chk img uc fb (fst ta) (snd ta)) refs uc = Inl OutOfBounds \<longrightarrow>
          (\<exists>ta\<in>set refs. \<not> unat (snd ta - fb) < n))"
  using assms
proof (induction refs arbitrary: seen uc)
  case Nil
  then show ?case by simp
next
  case (Cons ta refs)
  obtain t a where ta: "ta = (t, a)" by (cases ta)
  from Cons.prems(2) have nz: "a \<noteq> 0" and nzs: "\<forall>ta\<in>set refs. snd ta \<noteq> 0"
    by (simp_all add: ta)
  note step = blk_usage_chk_step(1) [OF Cons.prems(1) nz, where img = img and t = t]
    blk_usage_chk_step(2) [OF Cons.prems(1) nz]
  show ?case
  proof (cases "unat (a - fb) < n")
    case False
    with step(1) show ?thesis by (simp add: ta)
  next
    case inr: True
    show ?thesis
    proof (cases "a \<in> seen")
      case True
      with step(1) inr show ?thesis by (auto simp: ta)
    next
      case False
      let ?uc = "uc[unat (a - fb) := 1]"
      have run: "for_each (\<lambda>ta uc. blk_usage_chk img uc fb (fst ta) (snd ta)) (ta # refs) uc
          = for_each (\<lambda>ta uc. blk_usage_chk img uc fb (fst ta) (snd ta)) refs ?uc"
        using step(1) inr False by (simp add: ta)
      note IH = Cons.IH [OF step(2) [OF inr False] nzs]
      have set_eq: "distinct (map snd (ta # refs)) \<and> snd ` set (ta # refs) \<inter> seen = {}
          \<longleftrightarrow> distinct (map snd refs) \<and> snd ` set refs \<inter> insert a seen = {}"
        using False by (auto simp: ta)
      show ?thesis
        unfolding run set_eq using IH inr by (simp add: ta)
    qed
  qed
qed


lemma counts_of_init: "counts_of n fb {} (replicate n 0)"
  by (simp add: counts_of_def)

lemma addrs_chk_cases:
  "(addrs_chk img = Inr () \<longleftrightarrow>
      (\<forall>ta\<in>set (block_refs img). unat (snd ta - firstblk img) < unat (nblocks (sb img)))
      \<and> distinct (map snd (block_refs img)))
   \<and> (\<forall>e. addrs_chk img = Inl (Exit e) \<longrightarrow>
        (\<exists>t. e = DuplicateBlockUse t) \<and> \<not> distinct (map snd (block_refs img)))
   \<and> (addrs_chk img = Inl OutOfBounds \<longrightarrow>
        (\<exists>ta\<in>set (block_refs img). \<not> unat (snd ta - firstblk img) < unat (nblocks (sb img))))"
proof -
  have nz: "\<forall>ta\<in>set (block_refs img). snd ta \<noteq> 0"
    using block_refs_nonzero by force
  note scan = blk_usage_scan [OF counts_of_init nz, where img = img and fb = "firstblk img"
      and n = "unat (nblocks (sb img))"]
  show ?thesis
    using scan unfolding addrs_chk_refs by (auto split: sum.splits)
qed

lemma blk_usage_chk_zeros:
  "for_each (\<lambda>addr uc. blk_usage_chk img uc fb t addr) (replicate k 0) uc = Inr uc"
  by (rule for_each_replicate_skip) (simp add: blk_usage_chk_def)

lemma block_refs_shared_ptr: "block_refs shared_ptr_img = [(''direct'', 5)]"
  by (simp add: block_refs_def inode_refs_def shared_ptr_img_def init_img_def blank_img_def
      sb_small_def file_inode_def free_inode_def upt_rec)

text \<open>
  C2, as the specification states it, fails: \<^verbatim>\<open>addrs_chk\<close> counts the direct slots and the
  words of the indirect block, and never the indirect slot itself. In the image below
  block 5 is referenced by a direct slot of inode 2 and by the indirect slot of inode 3,
  and the check passes.
\<close>

theorem addrs_chk_counterexample:
  "addrs_chk shared_ptr_img = Inr () \<and> \<not> distinct (spec_block_refs shared_ptr_img)"
proof -
  have "addrs_chk shared_ptr_img = Inr ()"
    using addrs_chk_cases [of shared_ptr_img]
    by (simp add: block_refs_shared_ptr) (simp add: shared_ptr_img_def init_img_def blank_img_def sb_small_def)
  moreover have "spec_block_refs shared_ptr_img = [5, 5]"
    by (simp add: spec_block_refs_def spec_inode_refs_def shared_ptr_img_def init_img_def blank_img_def
      sb_small_def file_inode_def free_inode_def upt_rec)
  ultimately show ?thesis by simp
qed

text \<open>
  C2, amended: the references that \<^verbatim>\<open>addrs_chk\<close> counts are, for every non-free inode of
  the table, its non-zero direct slots and, when its indirect slot is non-zero, the
  non-zero words of its indirect block; the indirect slot itself is not counted. The check
  never reports a duplicate unless some address occurs twice among these references; when
  all of them index inside the array \<^verbatim>\<open>usage_counts\<close> (\<open>addr - firstblk < nblocks\<close>) it
  reports a duplicate if and only if some address occurs twice; and it passes if and only
  if all of them index inside the array and no address occurs twice.
\<close>

theorem addrs_chk_duplicates:
  "((\<exists>t. addrs_chk img = Inl (Exit (DuplicateBlockUse t))) \<longrightarrow> \<not> distinct (map snd (block_refs img)))
   \<and> ((\<forall>ta\<in>set (block_refs img). unat (snd ta - firstblk img) < unat (nblocks (sb img))) \<longrightarrow>
        ((\<exists>t. addrs_chk img = Inl (Exit (DuplicateBlockUse t))) \<longleftrightarrow>
         \<not> distinct (map snd (block_refs img))))
   \<and> (addrs_chk img = Inr () \<longleftrightarrow>
        (\<forall>ta\<in>set (block_refs img). unat (snd ta - firstblk img) < unat (nblocks (sb img)))
        \<and> distinct (map snd (block_refs img)))"
proof -
  note c = addrs_chk_cases [of img]
  have tri: "addrs_chk img = Inr () \<or> addrs_chk img = Inl OutOfBounds \<or> (\<exists>e. addrs_chk img = Inl (Exit e))"
  proof (cases "addrs_chk img")
    case (Inl s)
    then show ?thesis by (cases s) simp_all
  next
    case (Inr u)
    then show ?thesis by simp
  qed
  have one: "(\<exists>t. addrs_chk img = Inl (Exit (DuplicateBlockUse t))) \<longrightarrow> \<not> distinct (map snd (block_refs img))"
    using c by blast
  have two: "(\<exists>t. addrs_chk img = Inl (Exit (DuplicateBlockUse t)))"
    if "\<forall>ta\<in>set (block_refs img). unat (snd ta - firstblk img) < unat (nblocks (sb img))"
      and "\<not> distinct (map snd (block_refs img))"
  proof -
    from that c have "addrs_chk img \<noteq> Inr ()" and "addrs_chk img \<noteq> Inl OutOfBounds"
      by blast+
    with tri obtain e where e: "addrs_chk img = Inl (Exit e)" by blast
    with c obtain t where "e = DuplicateBlockUse t" by blast
    with e show ?thesis by blast
  qed
  from one two c show ?thesis by blast
qed

lemma block_refs_shared_direct: "block_refs shared_direct_img = [(''direct'', 5), (''direct'', 5)]"
  by (simp add: block_refs_def inode_refs_def shared_direct_img_def init_img_def blank_img_def
      sb_small_def file_inode_def free_inode_def upt_rec)

theorem addrs_chk_duplicates_witness:
  "block_refs shared_direct_img = [(''direct'', 5), (''direct'', 5)]
   \<and> unat (5 - firstblk shared_direct_img) < unat (nblocks (sb shared_direct_img))
   \<and> \<not> distinct (map snd (block_refs shared_direct_img))
   \<and> (\<exists>t. addrs_chk shared_direct_img = Inl (Exit (DuplicateBlockUse t)))
   \<and> distinct (map snd (block_refs shared_ptr_img))
   \<and> addrs_chk shared_ptr_img = Inr ()"
proof -
  have r: "\<forall>ta\<in>set (block_refs shared_direct_img).
       unat (snd ta - firstblk shared_direct_img) < unat (nblocks (sb shared_direct_img))"
    by (simp add: block_refs_shared_direct) (simp add: shared_direct_img_def init_img_def blank_img_def sb_small_def)
  have d: "\<not> distinct (map snd (block_refs shared_direct_img))"
    by (simp add: block_refs_shared_direct)
  have r': "\<forall>ta\<in>set (block_refs shared_ptr_img).
       unat (snd ta - firstblk shared_ptr_img) < unat (nblocks (sb shared_ptr_img))"
    by (simp add: block_refs_shared_ptr) (simp add: shared_ptr_img_def init_img_def blank_img_def sb_small_def)
  have d': "distinct (map snd (block_refs shared_ptr_img))"
    by (simp add: block_refs_shared_ptr)
  from addrs_chk_duplicates [of shared_direct_img] r d
  have "\<exists>t. addrs_chk shared_direct_img = Inl (Exit (DuplicateBlockUse t))" by blast
  moreover from addrs_chk_duplicates [of shared_ptr_img] r' d'
  have "addrs_chk shared_ptr_img = Inr ()" by blast
  moreover have "unat (5 - firstblk shared_direct_img) < unat (nblocks (sb shared_direct_img))"
    using r by (simp add: block_refs_shared_direct)
  ultimately show ?thesis using d d' block_refs_shared_direct by blast
qed


section \<open>Directory traversal: C9\<close>

lemma for_each_opt_returns:
  "(\<And>x s. x \<in> set xs \<Longrightarrow> body x s \<noteq> None) \<Longrightarrow> for_each_opt body xs s \<noteq> None"
proof (induction xs arbitrary: s)
  case Nil
  show ?case by simp
next
  case (Cons x xs)
  have "body x s \<noteq> None" using Cons.prems by simp
  moreover have "for_each_opt body xs s' \<noteq> None" for s'
    using Cons.prems by (intro Cons.IH) simp
  ultimately show ?case
    by (auto simp: then_do_def split: option.splits sum.splits)
qed

lemma process_block_returns:
  assumes "\<And>de m. addr \<noteq> 0 \<Longrightarrow> de \<in> set (map_dirents img addr) \<Longrightarrow> followed de \<Longrightarrow>
             rec (inodeblks img (unat (inum de))) m \<noteq> None"
  shows "process_block rec img addr inodemap \<noteq> None"
proof (cases "addr = 0")
  case True
  then show ?thesis by (simp add: process_block_def)
next
  case False
  have "for_each_opt
        (\<lambda>de m.
           if inum de = 0 \<or> name de = ''.'' \<or> name de = ''..'' then Some (Inr m)
           else if \<not> unat (inum de) < length m then Some (Inl OutOfBounds)
           else rec (inodeblks img (unat (inum de))) (m[unat (inum de) := m ! unat (inum de) + 1]))
        (map_dirents img addr) inodemap \<noteq> None"
  proof (rule for_each_opt_returns)
    fix de m assume de: "de \<in> set (map_dirents img addr)"
    show "(if inum de = 0 \<or> name de = ''.'' \<or> name de = ''..'' then Some (Inr m)
           else if \<not> unat (inum de) < length m then Some (Inl OutOfBounds)
           else rec (inodeblks img (unat (inum de))) (m[unat (inum de) := m ! unat (inum de) + 1])) \<noteq> None"
      using assms [OF False de] by (simp add: followed_def)
  qed
  with False show ?thesis by (simp add: process_block_def)
qed

lemma traverse_dirs_returns:
  fixes i :: u16
  assumes "acyclic (dir_links img)"
  shows "traverse_dirs img (inodeblks img (unat i)) inodemap \<noteq> None"
proof -
  have "finite (dir_links img)" by simp
  then have "wf (dir_links img)"
    using assms by (rule finite_acyclic_wf)
  then have "\<forall>m. traverse_dirs img (inodeblks img (unat i)) m \<noteq> None"
  proof (induct i rule: wf_induct_rule)
    case (less i)
    let ?d = "inodeblks img (unat i)"
    show ?case
    proof (cases "type ?d = T_DIR")
      case False
      then show ?thesis by (subst traverse_dirs.simps) simp
    next
      case True
      have child: "traverse_dirs img (inodeblks img (unat (inum de))) m \<noteq> None"
        if "a \<in> dir_block_addrs img ?d" "de \<in> set (map_dirents img a)" "followed de" for a de m
      proof -
        have "(inum de, i) \<in> dir_links img"
          using True that by (auto simp: dir_links_def)
        then show ?thesis using less.hyps by blast
      qed
      have blk: "process_block (traverse_dirs img) img a m \<noteq> None"
        if "a = 0 \<or> a \<in> dir_block_addrs img ?d" for a m
        using that child by (intro process_block_returns) auto
      have direct: "for_each_opt (process_block (traverse_dirs img) img) (addrs ?d) m \<noteq> None" for m
        by (rule for_each_opt_returns, rule blk) (auto simp: dir_block_addrs_def)
      have indirect: "for_each_opt (process_block (traverse_dirs img) img)
            (map_uints img (addrs_NDIRECT ?d)) m \<noteq> None"
        if "addrs_NDIRECT ?d \<noteq> 0" for m
        using that by (intro for_each_opt_returns blk) (auto simp: dir_block_addrs_def)
      show ?thesis
        using True direct indirect
        by (subst traverse_dirs.simps) (auto simp: then_do_def Let_def split: option.splits sum.splits)
    qed
  qed
  then show ?thesis by blast
qed


lemma process_block_zeros:
  "for_each_opt (process_block rec img) (replicate k 0) m = Some (Inr m)"
  by (rule for_each_opt_skip) (simp add: process_block_def)

lemma for_each_opt_append:
  "for_each_opt body (xs @ ys) s = then_do (for_each_opt body xs s) (for_each_opt body ys)"
  by (induction xs arbitrary: s) (auto simp: then_do_def split: option.splits sum.splits)

lemma for_each_opt_pad:
  "for_each_opt
     (\<lambda>de m. if inum de = 0 \<or> name de = ''.'' \<or> name de = ''..'' then Some (Inr m) else body de m)
     (replicate k empty_dirent) m = Some (Inr m)"
  by (rule for_each_opt_skip) (simp add: empty_dirent_def)

lemma cyc_img_sel:
  "inodeblks (init_img 8 4096 cyc_img) (Suc 0) = dir_inode_at 4"
  "inodeblks (init_img 8 4096 cyc_img) 2 = dir_inode_at 5"
  "map_dirents (init_img 8 4096 cyc_img) 4 =
     [\<lparr>inum = 1, name = ''.''\<rparr>, \<lparr>inum = 1, name = ''..''\<rparr>, \<lparr>inum = 2, name = ''sub''\<rparr>]
     @ replicate 29 empty_dirent"
  "map_dirents (init_img 8 4096 cyc_img) 5 =
     [\<lparr>inum = 2, name = ''.''\<rparr>, \<lparr>inum = 1, name = ''..''\<rparr>, \<lparr>inum = 1, name = ''up''\<rparr>]
     @ replicate 29 empty_dirent"
  by (simp_all add: cyc_img_def init_img_def blank_img_def)

lemma traverse_dirs_cyc_aux:
  assumes "traverse_dirs img d m = Some y"
  shows "\<not> (img = init_img 8 4096 cyc_img \<and> (d = dir_inode_at 4 \<or> d = dir_inode_at 5) \<and> length m = 4)"
  using assms
proof (induction rule: traverse_dirs.raw_induct [rotated 1, consumes 1])
  case (1 f img d m y)
  have IH: "f (init_img 8 4096 cyc_img) (dir_inode_at a) m' = None"
    if "a = 4 \<or> a = 5" "length m' = 4" for a m'
  proof (cases "f (init_img 8 4096 cyc_img) (dir_inode_at a) m'")
    case None
    then show ?thesis .
  next
    case (Some y')
    from "1.IH" [OF Some] that show ?thesis by blast
  qed
  show ?case
  proof
    assume c: "img = init_img 8 4096 cyc_img \<and> (d = dir_inode_at 4 \<or> d = dir_inode_at 5) \<and> length m = 4"
    then have len: "length m = 4" by simp
    from c consider "d = dir_inode_at 4" | "d = dir_inode_at 5" by blast
    then have "for_each_opt (process_block (f (init_img 8 4096 cyc_img)) (init_img 8 4096 cyc_img))
        (addrs d) m = None"
    proof cases
      case 1
      have "process_block (f (init_img 8 4096 cyc_img)) (init_img 8 4096 cyc_img) 4 m = None"
        using len IH [of 5 "m[2 := m ! 2 + 1]"]
        by (simp add: process_block_def cyc_img_sel then_do_def)
      with 1 show ?thesis
        by (simp add: dir_inode_at_def then_do_def)
    next
      case 2
      have "process_block (f (init_img 8 4096 cyc_img)) (init_img 8 4096 cyc_img) 5 m = None"
        using len IH [of 4 "m[1 := m ! 1 + 1]"]
        by (simp add: process_block_def cyc_img_sel then_do_def)
      with 2 show ?thesis
        by (simp add: dir_inode_at_def then_do_def)
    qed
    moreover have "type d = T_DIR"
      using c by (auto simp: dir_inode_at_def)
    ultimately show False
      using "1.hyps" c by (simp add: then_do_def)
  qed
qed

lemma traverse_dirs_cyc:
  "length m = 4 \<Longrightarrow> traverse_dirs (init_img 8 4096 cyc_img) (dir_inode_at 4) m = None"
  using traverse_dirs_cyc_aux [of "init_img 8 4096 cyc_img" "dir_inode_at 4" m]
  by (cases "traverse_dirs (init_img 8 4096 cyc_img) (dir_inode_at 4) m") auto

section \<open>Bitmap checks: C7 and C4\<close>

lemma for_each_collect:
  "P s \<Longrightarrow> for_each body xs s = Inr r \<Longrightarrow>
   (\<forall>x\<in>set xs. \<forall>s r. P s \<longrightarrow> body x s = Inr r \<longrightarrow> P r \<and> Q x) \<Longrightarrow>
   P r \<and> (\<forall>x\<in>set xs. Q x)"
proof (induction xs arbitrary: s)
  case Nil
  then show ?case by simp
next
  case (Cons x xs)
  from Cons.prems(2) obtain s' where s': "body x s = Inr s'"
    and rest: "for_each body xs s' = Inr r"
    by (auto split: sum.splits)
  have hd: "P s \<longrightarrow> body x s = Inr s' \<longrightarrow> P s' \<and> Q x"
    using Cons.prems(3) [rule_format, of x s s'] by simp
  have tl: "\<forall>x\<in>set xs. \<forall>s r. P s \<longrightarrow> body x s = Inr r \<longrightarrow> P r \<and> Q x"
    using Cons.prems(3) by (meson list.set_intros(2))
  from hd Cons.prems(1) s' have "P s'" and "Q x" by blast+
  with Cons.IH [OF _ rest tl] show ?case by simp
qed

lemma for_each_error:
  "for_each body xs s = Inl e \<Longrightarrow> \<exists>x\<in>set xs. \<exists>s'. body x s' = Inl e"
proof (induction xs arbitrary: s)
  case Nil
  then show ?case by simp
next
  case (Cons x xs)
  show ?case
  proof (cases "body x s")
    case (Inl e')
    with Cons.prems have "body x s = Inl e" by simp
    then show ?thesis by auto
  next
    case (Inr s')
    with Cons.prems have "for_each body xs s' = Inl e" by simp
    from Cons.IH [OF this] show ?thesis by auto
  qed
qed

lemma marks_ok_update:
  assumes "marks_ok img chkd" and "bitmapblks img a"
  shows "marks_ok img (chkd[unat a := True])"
  unfolding marks_ok_def
proof (intro allI impI)
  fix b :: u32
  assume b: "unat b < length (chkd[unat a := True])" and t: "chkd[unat a := True] ! unat b"
  show "bitmapblks img b"
  proof (cases "unat b = unat a")
    case True
    then have "b = a" by (simp add: word_unat_eq_iff)
    with assms(2) show ?thesis by simp
  next
    case False
    with b t assms(1) show ?thesis by (simp add: marks_ok_def)
  qed
qed

lemma marks_from_update:
  assumes "marks_from A chkd" and "a \<in> A"
  shows "marks_from A (chkd[unat a := True])"
  unfolding marks_from_def
proof (intro allI impI)
  fix k assume k: "k < length (chkd[unat a := True])" and t: "chkd[unat a := True] ! k"
  show "\<exists>b\<in>A. unat b = k"
  proof (cases "k = unat a")
    case True
    with assms(2) show ?thesis by blast
  next
    case False
    with k t assms(1) show ?thesis by (simp add: marks_from_def)
  qed
qed

lemma chk_indirect_body_step:
  assumes "marks_ok img chkd \<and> marks_from A chkd \<and> length chkd = n"
    and "chk_indirect_body img a chkd = Inr chkd'" and "a \<in> A"
  shows "(marks_ok img chkd' \<and> marks_from A chkd' \<and> length chkd' = n) \<and> (a \<noteq> 0 \<longrightarrow> bitmapblks img a)"
  using assms
  by (auto simp: chk_indirect_body_def marked_in_bmp_def CHK_BIT_def marks_ok_update marks_from_update
      split: if_splits) (auto simp: marks_ok_def)

lemma chk_indirect_marked:
  assumes "marks_ok img chkd \<and> marks_from A chkd \<and> length chkd = n"
    and "chk_indirect img ind chkd = Inr chkd'" and "set ind \<subseteq> A"
  shows "(marks_ok img chkd' \<and> marks_from A chkd' \<and> length chkd' = n)
    \<and> (\<forall>a\<in>set ind. a \<noteq> 0 \<longrightarrow> bitmapblks img a)"
  using assms(1) assms(2) [unfolded chk_indirect_def]
proof (rule for_each_collect)
  show "\<forall>a\<in>set ind. \<forall>s r. marks_ok img s \<and> marks_from A s \<and> length s = n \<longrightarrow>
      chk_indirect_body img a s = Inr r \<longrightarrow>
      (marks_ok img r \<and> marks_from A r \<and> length r = n) \<and> (a \<noteq> 0 \<longrightarrow> bitmapblks img a)"
  proof (intro ballI allI impI)
    fix a s r
    assume "a \<in> set ind" and inv: "marks_ok img s \<and> marks_from A s \<and> length s = n"
      and step: "chk_indirect_body img a s = Inr r"
    then have "a \<in> A" using assms(3) by blast
    with inv step show "(marks_ok img r \<and> marks_from A r \<and> length r = n) \<and> (a \<noteq> 0 \<longrightarrow> bitmapblks img a)"
      by (rule chk_indirect_body_step)
  qed
qed

lemma chk_indirect_body_error:
  "chk_indirect_body img a chkd = Inl e \<Longrightarrow>
   e = Exit AddressNotInBitmap \<or> (e = OutOfBounds \<and> \<not> unat a < length chkd)"
  by (auto simp: chk_indirect_body_def split: if_splits)


lemma for_each_error_inv:
  "P s \<Longrightarrow> for_each body xs s = Inl e \<Longrightarrow>
   (\<forall>x\<in>set xs. \<forall>s r. P s \<longrightarrow> body x s = Inr r \<longrightarrow> P r) \<Longrightarrow>
   \<exists>x\<in>set xs. \<exists>s'. P s' \<and> body x s' = Inl e"
proof (induction xs arbitrary: s)
  case Nil
  then show ?case by simp
next
  case (Cons x xs)
  show ?case
  proof (cases "body x s")
    case (Inl e')
    with Cons.prems(1,2) have "P s \<and> body x s = Inl e" by simp
    then show ?thesis by auto
  next
    case (Inr s')
    with Cons.prems(2) have rest: "for_each body xs s' = Inl e" by simp
    have "P s \<longrightarrow> body x s = Inr s' \<longrightarrow> P s'"
      using Cons.prems(3) [rule_format, of x s s'] by simp
    with Cons.prems(1) Inr have "P s'" by blast
    moreover have tl: "\<forall>x\<in>set xs. \<forall>s r. P s \<longrightarrow> body x s = Inr r \<longrightarrow> P r"
      using Cons.prems(3) by (meson list.set_intros(2))
    ultimately have "\<exists>x\<in>set xs. \<exists>s'. P s' \<and> body x s' = Inl e"
      using rest by (intro Cons.IH)
    then show ?thesis by auto
  qed
qed

lemma chk_indirect_body_length:
  "chk_indirect_body img a chkd = Inr chkd' \<Longrightarrow> length chkd' = length chkd"
  by (auto simp: chk_indirect_body_def split: if_splits)

lemma chk_indirect_error:
  assumes "chk_indirect img ind chkd = Inl e"
  shows "e = Exit AddressNotInBitmap \<or> (e = OutOfBounds \<and> (\<exists>a\<in>set ind. a \<noteq> 0 \<and> \<not> unat a < length chkd))"
proof -
  have "\<exists>a\<in>set ind. \<exists>s'. length s' = length chkd \<and> chk_indirect_body img a s' = Inl e"
    using assms [unfolded chk_indirect_def]
    by (intro for_each_error_inv [where P = "\<lambda>s. length s = length chkd"])
      (auto dest: chk_indirect_body_length)
  then obtain a s' where a: "a \<in> set ind" and len: "length s' = length chkd"
    and e: "chk_indirect_body img a s' = Inl e"
    by blast
  from e have "a \<noteq> 0"
    by (auto simp: chk_indirect_body_def)
  with chk_indirect_body_error [OF e] a len show ?thesis by auto
qed

lemma chk_bmp_addr_body_direct:
  "i \<noteq> N \<Longrightarrow> chk_bmp_addr_body img N (i, a) chkd = chk_indirect_body img a chkd"
  by (simp add: chk_bmp_addr_body_def chk_indirect_body_def Let_def)

lemma chk_bmp_addr_direct_loop:
  "for_each (chk_bmp_addr_body img (k + length xs)) (enumerate k xs) chkd =
   for_each (chk_indirect_body img) xs chkd"
proof (induction xs arbitrary: k chkd)
  case Nil
  show ?case by simp
next
  case (Cons x xs)
  have "chk_bmp_addr_body img (k + length (x # xs)) (k, x) chkd = chk_indirect_body img x chkd"
    by (rule chk_bmp_addr_body_direct) simp
  moreover have "for_each (chk_bmp_addr_body img (k + length (x # xs))) (enumerate (Suc k) xs) s =
      for_each (chk_indirect_body img) xs s" for s
    using Cons.IH [of "Suc k" s] by simp
  ultimately show ?case by (simp split: sum.splits)
qed

text \<open>The loop of \<^verbatim>\<open>chk_bmp_addr\<close>: the direct slots, then the indirect slot.\<close>

lemma chk_bmp_addr_split:
  "chk_bmp_addr img in' =
     (case chk_indirect img (addrs in') (replicate (unat (size' (sb img))) False) of
        Inl e \<Rightarrow> Inl e
      | Inr chkd \<Rightarrow>
          (case chk_bmp_addr_body img (length (addrs in')) (length (addrs in'), addrs_NDIRECT in') chkd of
             Inl e \<Rightarrow> Inl e
           | Inr chkd' \<Rightarrow> Inr ()))"
proof -
  have "enumerate 0 (addrs in' @ [addrs_NDIRECT in']) =
      enumerate 0 (addrs in') @ [(length (addrs in'), addrs_NDIRECT in')]"
    by (simp add: enumerate_append_eq)
  then show ?thesis
    using chk_bmp_addr_direct_loop [of img 0 "addrs in'"]
    by (simp add: chk_bmp_addr_def for_each_append chk_indirect_def split: sum.splits)
qed


lemma marks_init:
  "marks_ok img (replicate n False) \<and> marks_from A (replicate n False) \<and> length (replicate n False) = n"
  by (simp add: marks_ok_def marks_from_def)

lemma chk_bmp_addr_ok:
  assumes ok: "chk_bmp_addr img in' = Inr ()"
  shows "(\<forall>a\<in>set (addrs in'). a \<noteq> 0 \<longrightarrow> bitmapblks img a)
    \<and> (addrs_NDIRECT in' \<noteq> 0 \<longrightarrow> bitmapblks img (addrs_NDIRECT in'))
    \<and> (addrs_NDIRECT in' \<noteq> 0 \<and> addrs_NDIRECT in' \<notin> set (addrs in') \<longrightarrow>
         (\<forall>b\<in>set (map_uints img (addrs_NDIRECT in')). b \<noteq> 0 \<longrightarrow> bitmapblks img b))"
proof -
  let ?n = "unat (size' (sb img))" and ?ind = "addrs_NDIRECT in'" and ?N = "length (addrs in')"
  from ok obtain chkd chkd' where
    d: "chk_indirect img (addrs in') (replicate ?n False) = Inr chkd"
    and i: "chk_bmp_addr_body img ?N (?N, ?ind) chkd = Inr chkd'"
    by (auto simp: chk_bmp_addr_split split: sum.splits)
  from chk_indirect_marked [OF marks_init d, of "set (addrs in')"]
  have inv: "marks_ok img chkd" "marks_from (set (addrs in')) chkd" "length chkd = ?n"
    and direct: "\<forall>a\<in>set (addrs in'). a \<noteq> 0 \<longrightarrow> bitmapblks img a"
    by simp_all
  have ptr: "bitmapblks img ?ind" if "?ind \<noteq> 0"
    using i that inv(1)
    by (auto simp: chk_bmp_addr_body_def marked_in_bmp_def CHK_BIT_def marks_ok_def Let_def
        split: if_splits)
  have inside: "\<forall>b\<in>set (map_uints img ?ind). b \<noteq> 0 \<longrightarrow> bitmapblks img b"
    if nz: "?ind \<noteq> 0" and fresh: "?ind \<notin> set (addrs in')"
  proof -
    have in_range: "unat ?ind < length chkd"
      using i nz by (auto simp: chk_bmp_addr_body_def split: if_splits)
    have notyet: "\<not> chkd ! unat ?ind"
    proof
      assume "chkd ! unat ?ind"
      with inv(2) in_range obtain b where "b \<in> set (addrs in')" "unat b = unat ?ind"
        by (auto simp: marks_from_def)
      then have "?ind \<in> set (addrs in')" using word_unat_eq_iff [of b ?ind] by simp
      with fresh show False by simp
    qed
    from i nz in_range notyet
    have run: "chk_indirect img (map_uints img ?ind) (chkd[unat ?ind := True]) = Inr chkd'"
      and bit: "bitmapblks img ?ind"
      by (auto simp: chk_bmp_addr_body_def marked_in_bmp_def CHK_BIT_def Let_def split: if_splits)
    let ?A = "insert ?ind (set (addrs in') \<union> set (map_uints img ?ind))"
    have "marks_from ?A chkd"
      using inv(2) by (auto simp: marks_from_def)
    then have "marks_from ?A (chkd[unat ?ind := True])"
      by (rule marks_from_update) simp
    then have "marks_ok img (chkd[unat ?ind := True]) \<and> marks_from ?A (chkd[unat ?ind := True])
        \<and> length (chkd[unat ?ind := True]) = ?n"
      using inv(1,3) bit by (simp add: marks_ok_update)
    from chk_indirect_marked [OF this run] show ?thesis by auto
  qed
  from direct ptr inside show ?thesis by blast
qed

lemma chk_bmp_addr_error:
  assumes "chk_bmp_addr img in' = Inl e"
  shows "e = Exit AddressNotInBitmap \<or> e = OutOfBounds"
proof -
  let ?n = "unat (size' (sb img))" and ?ind = "addrs_NDIRECT in'" and ?N = "length (addrs in')"
  show ?thesis
  proof (cases "chk_indirect img (addrs in') (replicate ?n False)")
    case (Inl e')
    with assms have "e' = e" by (simp add: chk_bmp_addr_split)
    with chk_indirect_error [OF Inl] show ?thesis by auto
  next
    case (Inr chkd)
    with assms have "chk_bmp_addr_body img ?N (?N, ?ind) chkd = Inl e"
      by (simp add: chk_bmp_addr_split split: sum.splits)
    then show ?thesis
      by (auto simp: chk_bmp_addr_body_def Let_def split: if_splits dest: chk_indirect_error)
  qed
qed

lemma valid_addr_in_range:
  "valid_addr img a \<Longrightarrow> unat a < unat (size' (sb img))"
  by (simp add: valid_addr_def word_less_nat_alt)

lemma chk_bmp_addr_in_range:
  assumes d: "check_direct img in' = Inr ()" and i: "check_indirect img in' = Inr ()"
  shows "chk_bmp_addr img in' \<noteq> Inl OutOfBounds"
proof
  let ?n = "unat (size' (sb img))" and ?ind = "addrs_NDIRECT in'" and ?N = "length (addrs in')"
  assume oob: "chk_bmp_addr img in' = Inl OutOfBounds"
  from d have direct: "\<forall>a\<in>set (addrs in'). a \<noteq> 0 \<longrightarrow> unat a < ?n"
    by (auto simp: check_direct_iff split: if_splits dest: valid_addr_in_range)
  from i have ptr: "?ind \<noteq> 0 \<longrightarrow> unat ?ind < ?n"
    and inside: "?ind \<noteq> 0 \<longrightarrow> (\<forall>a\<in>set (map_uints img ?ind). a \<noteq> 0 \<longrightarrow> unat a < ?n)"
    by (auto simp: check_indirect_iff split: if_splits dest: valid_addr_in_range)
  show False
  proof (cases "chk_indirect img (addrs in') (replicate ?n False)")
    case (Inl e')
    with oob have "e' = OutOfBounds" by (simp add: chk_bmp_addr_split)
    with chk_indirect_error [OF Inl] direct show False by auto
  next
    case (Inr chkd)
    with oob have body: "chk_bmp_addr_body img ?N (?N, ?ind) chkd = Inl OutOfBounds"
      by (simp add: chk_bmp_addr_split split: sum.splits)
    have len: "length chkd = ?n"
      using chk_indirect_marked [OF marks_init Inr, of UNIV] by simp
    from body have nz: "?ind \<noteq> 0"
      by (auto simp: chk_bmp_addr_body_def)
    with body ptr len
    have "chk_indirect img (map_uints img ?ind) (chkd[unat ?ind := True]) = Inl OutOfBounds"
      by (auto simp: chk_bmp_addr_body_def Let_def split: if_splits)
    from chk_indirect_error [OF this] inside nz len show False by auto
  qed
qed


lemma bmp_chk_slots:
  "for_each (bmp_chk_slot img) xs cl =
   for_each (chk_mark_bmp (bitmapblks img)) (filter (\<lambda>addr. addr \<noteq> 0) xs) cl"
  by (induction xs arbitrary: cl) (auto simp: bmp_chk_slot_def split: sum.splits)

lemma map_snd_inode_refs:
  "map snd (inode_refs img in') =
     (if type in' = T_FREE then []
      else filter (\<lambda>addr. addr \<noteq> 0) (addrs in') @
           (if addrs_NDIRECT in' \<noteq> 0
            then filter (\<lambda>addr. addr \<noteq> 0) (map_uints img (addrs_NDIRECT in'))
            else []))"
  by (simp add: inode_refs_def comp_def)

lemma bmp_chk_inode_refs:
  "bmp_chk_inode img in' cl =
   for_each (chk_mark_bmp (bitmapblks img)) (map snd (inode_refs img in')) cl"
  by (simp add: bmp_chk_inode_def map_snd_inode_refs for_each_append Let_def bmp_chk_slots
      split: sum.splits)

lemma bmp_chk_forward_refs:
  "bmp_chk_forward img =
   for_each (chk_mark_bmp (bitmapblks img)) (map snd (block_refs img))
     (replicate (unat (size' (sb img))) False)"
proof -
  have "(\<lambda>i. bmp_chk_inode img (inodeblks img i)) =
    (\<lambda>i. for_each (chk_mark_bmp (bitmapblks img)) (map snd (inode_refs img (inodeblks img i))))"
    by (intro ext) (rule bmp_chk_inode_refs)
  then show ?thesis
    by (simp add: bmp_chk_forward_def block_refs_def for_each_concat map_concat comp_def)
qed

lemma chk_mark_bmp_step:
  assumes "marks_from A cl \<and> length cl = n" and "chk_mark_bmp bmp a cl = Inr cl'" and "a \<in> A"
  shows "(marks_from A cl' \<and> length cl' = n) \<and> bmp a"
  using assms by (auto simp: chk_mark_bmp_def CHK_BIT_def marks_from_update split: if_splits)

lemma bmp_chk_forward_ok:
  assumes "bmp_chk_forward img = Inr cl"
  shows "(marks_from (snd ` set (block_refs img)) cl \<and> length cl = unat (size' (sb img)))
    \<and> (\<forall>a\<in>set (map snd (block_refs img)). bitmapblks img a)"
  using _ assms [unfolded bmp_chk_forward_refs]
proof (rule for_each_collect)
  show "marks_from (snd ` set (block_refs img)) (replicate (unat (size' (sb img))) False)
      \<and> length (replicate (unat (size' (sb img))) False) = unat (size' (sb img))"
    by (simp add: marks_from_def)
  show "\<forall>a\<in>set (map snd (block_refs img)). \<forall>s r.
      marks_from (snd ` set (block_refs img)) s \<and> length s = unat (size' (sb img)) \<longrightarrow>
      chk_mark_bmp (bitmapblks img) a s = Inr r \<longrightarrow>
      (marks_from (snd ` set (block_refs img)) r \<and> length r = unat (size' (sb img))) \<and> bitmapblks img a"
  proof (intro ballI allI impI)
    fix a s r
    assume "a \<in> set (map snd (block_refs img))"
      and inv: "marks_from (snd ` set (block_refs img)) s \<and> length s = unat (size' (sb img))"
      and step: "chk_mark_bmp (bitmapblks img) a s = Inr r"
    then have "a \<in> snd ` set (block_refs img)" by simp
    with inv step show "(marks_from (snd ` set (block_refs img)) r \<and> length r = unat (size' (sb img)))
        \<and> bitmapblks img a"
      by (rule chk_mark_bmp_step)
  qed
qed

lemma bmp_chk_forward_error:
  assumes "bmp_chk_forward img = Inl e"
  shows "e = Exit BitmapBlockNotInUse \<or> e = OutOfBounds"
proof -
  from for_each_error [OF assms [unfolded bmp_chk_forward_refs]]
  obtain a s' where "chk_mark_bmp (bitmapblks img) a s' = Inl e" by blast
  then show ?thesis
    by (auto simp: chk_mark_bmp_def split: if_splits)
qed

lemma bmp_chk_final_ok:
  assumes "length chklist = unat (size' (sb img))"
  shows "bmp_chk_final img chklist = Inr ()"
proof -
  have "bmp_chk_final_body img chklist i () = Inr ()" if "i \<in> set [0..<unat (size' (sb img))]" for i
    using that assms by (simp add: bmp_chk_final_body_def)
  then have "find (\<lambda>i. bmp_chk_final_body img chklist i () \<noteq> Inr ()) [0..<unat (size' (sb img))] = None"
    by (simp add: find_None_iff del: set_upt)
  then show ?thesis
    by (simp add: bmp_chk_final_def for_each_unit)
qed

lemma bmp_chk_forward_only:
  "bmp_chk img = (case bmp_chk_forward img of Inl e \<Rightarrow> Inl e | Inr chklist \<Rightarrow> Inr ())"
  by (auto simp: bmp_chk_def split: sum.splits dest: bmp_chk_forward_ok intro: bmp_chk_final_ok)

lemma for_each_unit_ok:
  "for_each body xs (u::unit) = Inr () \<longleftrightarrow> (\<forall>x\<in>set xs. body x () = Inr ())"
  by (induction xs) (auto split: sum.splits)

lemma init_img_sel:
  "sb (init_img IPB BPB m) = sb m"
  "inodeblks (init_img IPB BPB m) = inodeblks m"
  "bitmapblks (init_img IPB BPB m) = bitmapblks m"
  "map_uints (init_img IPB BPB m) = map_uints m"
  "map_dirents (init_img IPB BPB m) = map_dirents m"
  by (simp_all add: init_img_def Let_def)

lemma validate_dir_error:
  assumes "validate_dir img in' n = Inl e"
  shows "e = Exit MalformedDirectory \<or> e = Exit MissingRoot"
  using assms
  by (auto simp: validate_dir_def split: sum.splits if_splits dest: validate_dir_loop_error)

lemma validate_type_error:
  "validate_type in' = Inl e \<Longrightarrow> e = Exit BadInodeType"
  by (cases "type in'") (simp_all add: validate_type_def)

lemma check_direct_error:
  "check_direct img in' = Inl e \<Longrightarrow> e = Exit BadDirectAddress"
  by (simp add: check_direct_iff split: if_splits)

lemma check_indirect_error:
  "check_indirect img in' = Inl e \<Longrightarrow> e = Exit BadIndirectAddress"
  by (simp add: check_indirect_iff split: if_splits)

lemma main_body_checks_error:
  assumes "main_body_checks img i = Inl e"
  shows "e \<in> Exit ` {BadInodeType, BadDirectAddress, BadIndirectAddress, MissingRoot, MalformedDirectory}"
proof -
  let ?in = "inodeblks img i"
  show ?thesis
  proof (cases "validate_type ?in")
    case (Inl e')
    with assms have "e' = e" by (simp add: main_body_checks_def Let_def)
    with validate_type_error [OF Inl] show ?thesis by simp
  next
    case t: (Inr u1)
    show ?thesis
    proof (cases "check_direct img ?in")
      case (Inl e')
      with assms t have "e' = e" by (simp add: main_body_checks_def Let_def)
      with check_direct_error [OF Inl] show ?thesis by simp
    next
      case d: (Inr u2)
      show ?thesis
      proof (cases "check_indirect img ?in")
        case (Inl e')
        with assms t d have "e' = e" by (simp add: main_body_checks_def Let_def)
        with check_indirect_error [OF Inl] show ?thesis by simp
      next
        case (Inr u3)
        with assms t d have
          "(if i = 1 then
              (if type ?in \<noteq> T_DIR then Inl (Exit MissingRoot) else validate_dir img ?in 1)
            else if type ?in = T_DIR then validate_dir img ?in i
            else Inr ()) = Inl e"
          by (simp add: main_body_checks_def Let_def)
        then have "e = Exit MissingRoot \<or> (\<exists>n. validate_dir img ?in n = Inl e)"
          by (auto split: if_splits)
        then show ?thesis
          using validate_dir_error by blast
      qed
    qed
  qed
qed

lemma main_body_checks_ok:
  assumes "main_body_checks img i = Inr ()"
  shows "check_direct img (inodeblks img i) = Inr () \<and> check_indirect img (inodeblks img i) = Inr ()"
  using assms by (auto simp: main_body_checks_def Let_def split: sum.splits)

lemma main_body_error:
  assumes "main_body img i u = Inl e"
  shows "e \<in> Exit ` {BadInodeType, BadDirectAddress, BadIndirectAddress, MissingRoot,
                      MalformedDirectory, AddressNotInBitmap}"
proof (cases "main_body_checks img i")
  case (Inl e')
  with assms have "e' = e"
    by (simp add: main_body_def Let_def split: if_splits)
  with main_body_checks_error [OF Inl] show ?thesis by auto
next
  case (Inr u')
  then have ok: "main_body_checks img i = Inr ()" by simp
  with assms have e: "chk_bmp_addr img (inodeblks img i) = Inl e"
    by (simp add: main_body_def Let_def split: if_splits)
  from main_body_checks_ok [OF ok] have "chk_bmp_addr img (inodeblks img i) \<noteq> Inl OutOfBounds"
    by (intro chk_bmp_addr_in_range) simp_all
  with chk_bmp_addr_error [OF e] e show ?thesis by auto
qed

lemma main_sweep_error:
  assumes "main_sweep img = Inl e"
  shows "e \<in> Exit ` {BadInodeType, BadDirectAddress, BadIndirectAddress, MissingRoot,
                      MalformedDirectory, AddressNotInBitmap}"
proof -
  from for_each_error [OF assms [unfolded main_sweep_def]]
  obtain i u where "main_body img i u = Inl e" by blast
  then show ?thesis by (rule main_body_error)
qed

lemma main_sweep_ok:
  assumes "main_sweep img = Inr ()" and "i < unat (ninodes (sb img))"
    and "type (inodeblks img i) \<noteq> T_FREE"
  shows "main_body_checks img i = Inr () \<and> chk_bmp_addr img (inodeblks img i) = Inr ()"
proof -
  have "i \<in> set [0..<unat (ninodes (sb img))]"
    using assms(2) by simp
  with assms(1) have "main_body img i () = Inr ()"
    unfolding main_sweep_def for_each_unit_ok by blast
  with assms(3) show ?thesis
    by (auto simp: main_body_def Let_def split: sum.splits)
qed

lemma block_refs_inside:
  assumes "i < unat (ninodes (sb img))" and "type (inodeblks img i) \<noteq> T_FREE"
    and "addrs_NDIRECT (inodeblks img i) \<noteq> 0"
    and "a \<in> set (map_uints img (addrs_NDIRECT (inodeblks img i)))" and "a \<noteq> 0"
  shows "a \<in> set (map snd (block_refs img))"
proof -
  have "a \<in> set (map snd (inode_refs img (inodeblks img i)))"
    using assms(2-5) by (simp add: map_snd_inode_refs)
  moreover have "i \<in> set [0..<unat (ninodes (sb img))]"
    using assms(1) by simp
  ultimately show ?thesis
    unfolding block_refs_def by (auto simp del: set_upt)
qed

lemma unmarked_stops:
  assumes i: "i < unat (ninodes (sb img))" and nf: "type (inodeblks img i) \<noteq> T_FREE"
    and use: "inode_uses img (inodeblks img i) a" and clear: "\<not> bitmapblks img a"
  shows "main_sweep img \<noteq> Inr () \<or> bmp_chk img \<noteq> Inr ()"
proof (rule ccontr)
  assume "\<not> (main_sweep img \<noteq> Inr () \<or> bmp_chk img \<noteq> Inr ())"
  then have sw: "main_sweep img = Inr ()" and bm: "bmp_chk img = Inr ()" by simp_all
  from main_sweep_ok [OF sw i nf] have "chk_bmp_addr img (inodeblks img i) = Inr ()" by simp
  note ok = chk_bmp_addr_ok [OF this]
  from bm obtain cl where "bmp_chk_forward img = Inr cl"
    by (auto simp: bmp_chk_forward_only split: sum.splits)
  note fw = bmp_chk_forward_ok [OF this]
  from use have nz: "a \<noteq> 0" by (simp add: inode_uses_def)
  from use consider "a \<in> set (addrs (inodeblks img i))" | "a = addrs_NDIRECT (inodeblks img i)"
    | "addrs_NDIRECT (inodeblks img i) \<noteq> 0" "a \<in> set (map_uints img (addrs_NDIRECT (inodeblks img i)))"
    by (auto simp: inode_uses_def)
  then have "bitmapblks img a"
  proof cases
    case 1
    with ok nz show ?thesis by blast
  next
    case 2
    with ok nz show ?thesis by blast
  next
    case 3
    from block_refs_inside [OF i nf 3 nz] fw show ?thesis by blast
  qed
  with clear show False by simp
qed

section \<open>The example images, run\<close>

lemma chk_indirect_zeros:
  "for_each (chk_indirect_body img) (replicate k 0) chkd = Inr chkd"
  by (rule for_each_replicate_skip) (simp add: chk_indirect_body_def)

lemma tree_img_sel:
  "sb (init_img 8 4096 tree_img) = sb_small"
  "firstblk (init_img 8 4096 tree_img) = 4"
  "inodeblks (init_img 8 4096 tree_img) 0 = free_inode"
  "inodeblks (init_img 8 4096 tree_img) (Suc 0) = dir_inode_at 4"
  "inodeblks (init_img 8 4096 tree_img) 2 = dir_inode_at 5"
  "inodeblks (init_img 8 4096 tree_img) 3 = file_inode (6 # replicate 11 0) 0"
  "bitmapblks (init_img 8 4096 tree_img) = (\<lambda>a. a < 8)"
  "map_uints (init_img 8 4096 tree_img) = (\<lambda>a. replicate 128 0)"
  "map_dirents (init_img 8 4096 tree_img) 4 =
     [\<lparr>inum = 1, name = ''.''\<rparr>, \<lparr>inum = 1, name = ''..''\<rparr>,
      \<lparr>inum = 2, name = ''sub''\<rparr>, \<lparr>inum = 3, name = ''foo''\<rparr>] @ replicate 28 empty_dirent"
  "map_dirents (init_img 8 4096 tree_img) 5 =
     [\<lparr>inum = 2, name = ''.''\<rparr>, \<lparr>inum = 1, name = ''..''\<rparr>] @ replicate 30 empty_dirent"
  by (simp_all add: tree_img_def init_img_def blank_img_def sb_small_def)

lemma upt4: "[0..<4] = [0, 1, 2, 3]" and upt24: "[2..<4] = [2, 3]"
  by (simp_all add: upt_rec)

lemma tree_main_sweep: "main_sweep (init_img 8 4096 tree_img) = Inr ()"
  by (simp add: main_sweep_def for_each_unit_ok tree_img_sel sb_small_def upt4
      main_body_def main_body_checks_def free_inode_def dir_inode_at_def file_inode_def
      validate_type_def check_direct_iff check_indirect_iff valid_addr_def
      validate_dir_def process_entries_def process_entries_body_def process_entries_pad
      validate_dir_loop_zeros
      chk_bmp_addr_split chk_indirect_def chk_indirect_body_def chk_indirect_zeros
      chk_bmp_addr_body_def marked_in_bmp_def CHK_BIT_def)


lemma tree_block_refs:
  "block_refs (init_img 8 4096 tree_img) = [(''direct'', 4), (''direct'', 5), (''direct'', 6)]"
  by (simp add: block_refs_def inode_refs_def tree_img_sel sb_small_def upt4
      free_inode_def dir_inode_at_def file_inode_def)

lemma tree_bmp_chk: "bmp_chk (init_img 8 4096 tree_img) = Inr ()"
  by (simp add: bmp_chk_forward_only bmp_chk_forward_refs tree_block_refs tree_img_sel sb_small_def
      chk_mark_bmp_def CHK_BIT_def)

lemma tree_addrs_chk: "addrs_chk (init_img 8 4096 tree_img) = Inr ()"
  using addrs_chk_cases [of "init_img 8 4096 tree_img"]
  by (simp add: tree_block_refs tree_img_sel sb_small_def)

lemma tree_traverse:
  "traverse_dirs (init_img 8 4096 tree_img) (dir_inode_at 4) [1, 1, 0, 0] = Some (Inr [1, 1, 1, 1])"
  by (simp add: traverse_dirs.simps process_block_def then_do_def tree_img_sel dir_inode_at_def
      file_inode_def for_each_opt_pad process_block_zeros)

lemma tree_dir_chk: "dir_chk (init_img 8 4096 tree_img) = Some (Inr ())"
proof -
  have "replicate 4 (0::int) = [0, 0, 0, 0]"
    by (simp add: numeral_eq_Suc)
  then have init: "dir_chk_init (init_img 8 4096 tree_img) = Inr [1, 1, 0, 0]"
    by (simp add: dir_chk_init_def tree_img_sel sb_small_def Let_def)
  have "dir_chk_sweep (init_img 8 4096 tree_img) [1, 1, 1, 1] = Inr ()"
    by (simp add: dir_chk_sweep_def for_each_unit_ok tree_img_sel sb_small_def upt24
        dir_chk_body_def chk_in_use_def chk_in_free_def chk_ref_cnt_def chk_dir_once_def
        dir_inode_at_def file_inode_def)
  with init tree_traverse show ?thesis
    by (simp add: dir_chk_def tree_img_sel then_do_def)
qed

lemma tree_main: "main 8 4096 tree_img = Some (Inr ())"
  by (simp add: main_def Let_def tree_main_sweep tree_bmp_chk tree_addrs_chk tree_dir_chk)


lemma cyc_img_sel2:
  "sb (init_img 8 4096 cyc_img) = sb_small"
  "firstblk (init_img 8 4096 cyc_img) = 4"
  "inodeblks (init_img 8 4096 cyc_img) 0 = free_inode"
  "inodeblks (init_img 8 4096 cyc_img) 3 = free_inode"
  "bitmapblks (init_img 8 4096 cyc_img) = (\<lambda>a. a < 6)"
  "map_uints (init_img 8 4096 cyc_img) = (\<lambda>a. replicate 128 0)"
  by (simp_all add: cyc_img_def init_img_def blank_img_def sb_small_def)

lemma cyc_main_sweep: "main_sweep (init_img 8 4096 cyc_img) = Inr ()"
  by (simp add: main_sweep_def for_each_unit_ok cyc_img_sel cyc_img_sel2 sb_small_def upt4
      main_body_def main_body_checks_def free_inode_def dir_inode_at_def
      validate_type_def check_direct_iff check_indirect_iff valid_addr_def
      validate_dir_def process_entries_def process_entries_body_def process_entries_pad
      validate_dir_loop_zeros
      chk_bmp_addr_split chk_indirect_def chk_indirect_body_def chk_indirect_zeros
      chk_bmp_addr_body_def marked_in_bmp_def CHK_BIT_def)

lemma cyc_block_refs:
  "block_refs (init_img 8 4096 cyc_img) = [(''direct'', 4), (''direct'', 5)]"
  by (simp add: block_refs_def inode_refs_def cyc_img_sel cyc_img_sel2 sb_small_def upt4
      free_inode_def dir_inode_at_def)

lemma cyc_bmp_chk: "bmp_chk (init_img 8 4096 cyc_img) = Inr ()"
  by (simp add: bmp_chk_forward_only bmp_chk_forward_refs cyc_block_refs cyc_img_sel2 sb_small_def
      chk_mark_bmp_def CHK_BIT_def)

lemma cyc_addrs_chk: "addrs_chk (init_img 8 4096 cyc_img) = Inr ()"
  using addrs_chk_cases [of "init_img 8 4096 cyc_img"]
  by (simp add: cyc_block_refs cyc_img_sel2 sb_small_def)

lemma cyc_dir_chk: "dir_chk (init_img 8 4096 cyc_img) = None"
proof -
  have "replicate 4 (0::int) = [0, 0, 0, 0]"
    by (simp add: numeral_eq_Suc)
  then have init: "dir_chk_init (init_img 8 4096 cyc_img) = Inr [1, 1, 0, 0]"
    by (simp add: dir_chk_init_def cyc_img_sel2 sb_small_def Let_def)
  have "traverse_dirs (init_img 8 4096 cyc_img) (dir_inode_at 4) [1, 1, 0, 0] = None"
    by (rule traverse_dirs_cyc) simp
  with init show ?thesis
    by (simp add: dir_chk_def cyc_img_sel then_do_def)
qed

lemma cyc_main: "main 8 4096 cyc_img = None"
  by (simp add: main_def Let_def cyc_main_sweep cyc_bmp_chk cyc_addrs_chk cyc_dir_chk)

lemma dir_linksI:
  "type (inodeblks img (unat i)) = T_DIR \<Longrightarrow> a \<in> dir_block_addrs img (inodeblks img (unat i)) \<Longrightarrow>
   de \<in> set (map_dirents img a) \<Longrightarrow> followed de \<Longrightarrow> inum de = j \<Longrightarrow> (j, i) \<in> dir_links img"
  by (auto simp: dir_links_def)

lemma cyc_links: "(1, 1) \<in> (dir_links (init_img 8 4096 cyc_img))\<^sup>+"
proof -
  let ?img = "init_img 8 4096 cyc_img"
  have "(2, 1) \<in> dir_links ?img"
    by (rule dir_linksI [where a = 4 and de = "\<lparr>inum = 2, name = ''sub''\<rparr>"])
      (simp_all add: cyc_img_sel dir_block_addrs_def dir_inode_at_def followed_def)
  moreover have "(1, 2) \<in> dir_links ?img"
    by (rule dir_linksI [where a = 5 and de = "\<lparr>inum = 1, name = ''up''\<rparr>"])
      (simp_all add: cyc_img_sel dir_block_addrs_def dir_inode_at_def followed_def)
  ultimately show ?thesis by (meson trancl.r_into_trancl trancl_trans)
qed

lemma tree_links: "dir_links (init_img 8 4096 tree_img) \<subseteq> {(j, i). i = 1 \<and> j \<noteq> 1}"
proof
  fix p assume p: "p \<in> dir_links (init_img 8 4096 tree_img)"
  obtain j i where ji: "p = (j, i)" by (cases p)
  let ?img = "init_img 8 4096 tree_img"
  from p ji have dir: "type (inodeblks ?img (unat i)) = T_DIR"
    and ex: "\<exists>a\<in>dir_block_addrs ?img (inodeblks ?img (unat i)).
        \<exists>de\<in>set (map_dirents ?img a). followed de \<and> inum de = j"
    by (simp_all add: dir_links_def)
  from dir have "unat i = 1 \<or> unat i = 2"
    by (auto simp: tree_img_def init_img_def blank_img_def free_inode_def file_inode_def
        split: if_splits)
  then show "p \<in> {(j, i). i = 1 \<and> j \<noteq> 1}"
  proof
    assume u: "unat i = 1"
    then have "i = 1" using word_unat_eq_iff [of i 1] by simp
    moreover from ex u have "j = 2 \<or> j = 3"
      by (auto simp: dir_block_addrs_def tree_img_sel dir_inode_at_def followed_def empty_dirent_def)
    ultimately show ?thesis by (auto simp: ji)
  next
    assume u: "unat i = 2"
    from ex u have False
      by (auto simp: dir_block_addrs_def tree_img_sel dir_inode_at_def followed_def empty_dirent_def)
    then show ?thesis ..
  qed
qed

lemma tree_acyclic: "acyclic (dir_links (init_img 8 4096 tree_img))"
proof -
  have "{(j, i). i = 1 \<and> j \<noteq> 1} \<subseteq> measure (\<lambda>x :: u16. if x = 1 then 1 else 0)"
    by auto
  then have "wf {(j :: u16, i). i = 1 \<and> j \<noteq> 1}"
    by (rule wf_subset [OF wf_measure])
  then have "acyclic {(j :: u16, i). i = 1 \<and> j \<noteq> 1}"
    by (rule wf_acyclic)
  then show ?thesis
    using tree_links by (rule acyclic_subset)
qed

text \<open>
  C9: \<^verbatim>\<open>traverse_dirs\<close> keeps no record of the directories it has entered. When the
  directory graph of the image has no cycle (no directory inode is reached from itself
  through followed entries), the traversal returns, from any inode and with any table.
  In the image \<open>cyc_img\<close> the root is reached from itself (the root holds "sub", which
  holds "up" for the root); the image passes every check before the traversal, and
  neither the traversal from the root nor the run returns.
\<close>

theorem traverse_dirs_termination:
  fixes i :: u16
  shows "(acyclic (dir_links img) \<longrightarrow>
            (\<exists>r. traverse_dirs img (inodeblks img (unat i)) inodemap = Some r))
    \<and> (1, 1) \<in> (dir_links (init_img 8 4096 cyc_img))\<^sup>+
    \<and> traverse_dirs (init_img 8 4096 cyc_img) (inodeblks (init_img 8 4096 cyc_img) 1) [1, 1, 0, 0] = None
    \<and> dir_chk (init_img 8 4096 cyc_img) = None
    \<and> main 8 4096 cyc_img = None"
proof -
  have "traverse_dirs (init_img 8 4096 cyc_img) (dir_inode_at 4) [1, 1, 0, 0] = None"
    by (rule traverse_dirs_cyc) simp
  then have "traverse_dirs (init_img 8 4096 cyc_img) (inodeblks (init_img 8 4096 cyc_img) 1) [1, 1, 0, 0] = None"
    by (simp add: cyc_img_sel)
  moreover have "acyclic (dir_links img) \<longrightarrow>
      (\<exists>r. traverse_dirs img (inodeblks img (unat i)) inodemap = Some r)"
    using traverse_dirs_returns [of img i inodemap] by auto
  ultimately show ?thesis
    using cyc_links cyc_dir_chk cyc_main by blast
qed

theorem traverse_dirs_termination_witness:
  "acyclic (dir_links (init_img 8 4096 tree_img))
   \<and> (\<exists>r. traverse_dirs (init_img 8 4096 tree_img)
            (inodeblks (init_img 8 4096 tree_img) (unat (1::u16))) [1, 1, 0, 0] = Some r)
   \<and> main 8 4096 tree_img = Some (Inr ())"
  using traverse_dirs_termination [of "init_img 8 4096 tree_img" 1 "[1, 1, 0, 0]"]
    tree_acyclic tree_main
  by blast

section \<open>The seed of the reference counts: C8\<close>

lemma without_dots_sel:
  "sb (without_dots img) = sb img"
  "inodeblks (without_dots img) = inodeblks img"
  "map_uints (without_dots img) = map_uints img"
  "map_dirents (without_dots img) a =
     filter (\<lambda>de. name de \<noteq> ''.'' \<and> name de \<noteq> ''..'') (map_dirents img a)"
  by (simp_all add: without_dots_def)

lemma for_each_opt_filter:
  "(\<And>x s. \<not> Q x \<Longrightarrow> body x s = Some (Inr s)) \<Longrightarrow>
   for_each_opt body (filter Q xs) s = for_each_opt body xs s"
  by (induction xs arbitrary: s) (auto simp: then_do_def split: option.splits sum.splits)

lemma process_block_without_dots:
  "process_block rec (without_dots img) addr m = process_block rec img addr m"
  unfolding process_block_def without_dots_sel
  by (simp add: for_each_opt_filter)

lemma for_each_opt_mono_Some:
  assumes "\<And>x s y. x \<in> set xs \<Longrightarrow> body x s = Some y \<Longrightarrow> body' x s = Some y"
    and "for_each_opt body xs s = Some y"
  shows "for_each_opt body' xs s = Some y"
  using assms
proof (induction xs arbitrary: s)
  case Nil
  then show ?case by simp
next
  case (Cons x xs)
  from Cons.prems(2) obtain r where r: "body x s = Some r"
    by (cases "body x s") (simp_all add: then_do_def)
  then have r': "body' x s = Some r"
    using Cons.prems(1) by simp
  show ?case
  proof (cases r)
    case (Inl e)
    with r r' Cons.prems(2) show ?thesis by (auto simp: then_do_def)
  next
    case (Inr s')
    with r Cons.prems(2) have "for_each_opt body xs s' = Some y"
      by (simp add: then_do_def)
    then have "for_each_opt body' xs s' = Some y"
      using Cons.prems(1) by (intro Cons.IH) simp_all
    with r' Inr show ?thesis by (simp add: then_do_def)
  qed
qed

lemma process_block_mono_Some:
  assumes "\<And>d m y. rec d m = Some y \<Longrightarrow> rec' d m = Some y"
    and "process_block rec img addr m = Some y"
  shows "process_block rec' img addr m = Some y"
proof (cases "addr = 0")
  case True
  with assms(2) show ?thesis by (simp add: process_block_def)
next
  case False
  with assms(2) have "for_each_opt
        (\<lambda>de m.
           if inum de = 0 \<or> name de = ''.'' \<or> name de = ''..'' then Some (Inr m)
           else if \<not> unat (inum de) < length m then Some (Inl OutOfBounds)
           else rec (inodeblks img (unat (inum de))) (m[unat (inum de) := m ! unat (inum de) + 1]))
        (map_dirents img addr) m = Some y"
    by (simp add: process_block_def)
  then have "for_each_opt
        (\<lambda>de m.
           if inum de = 0 \<or> name de = ''.'' \<or> name de = ''..'' then Some (Inr m)
           else if \<not> unat (inum de) < length m then Some (Inl OutOfBounds)
           else rec' (inodeblks img (unat (inum de))) (m[unat (inum de) := m ! unat (inum de) + 1]))
        (map_dirents img addr) m = Some y"
    by (rule for_each_opt_mono_Some [rotated]) (auto split: if_splits intro: assms(1))
  with False show ?thesis by (simp add: process_block_def)
qed

text \<open>The body of \<^verbatim>\<open>traverse_dirs\<close> for a directory, with another function for its calls.\<close>

lemma traverse_body_mono_Some:
  assumes rec: "\<And>d m y. rec d m = Some y \<Longrightarrow> rec' d m = Some y"
    and run: "then_do (for_each_opt (process_block rec img) (addrs d) m)
             (\<lambda>m. let addr = addrs_NDIRECT d in
                if addr \<noteq> 0
                then for_each_opt (process_block rec img) (map_uints img addr) m
                else Some (Inr m)) = Some y"
  shows "then_do (for_each_opt (process_block rec' img) (addrs d) m)
             (\<lambda>m. let addr = addrs_NDIRECT d in
                if addr \<noteq> 0
                then for_each_opt (process_block rec' img) (map_uints img addr) m
                else Some (Inr m)) = Some y"
proof -
  have blocks: "for_each_opt (process_block rec' img) xs s = Some z"
    if "for_each_opt (process_block rec img) xs s = Some z" for xs s z
    using that by (rule for_each_opt_mono_Some [rotated]) (rule process_block_mono_Some [OF rec])
  from run obtain r where r: "for_each_opt (process_block rec img) (addrs d) m = Some r"
    by (cases "for_each_opt (process_block rec img) (addrs d) m") (simp_all add: then_do_def)
  note r' = blocks [OF r]
  show ?thesis
  proof (cases r)
    case (Inl e)
    with r r' run show ?thesis by (auto simp: then_do_def)
  next
    case (Inr m1)
    show ?thesis
    proof (cases "addrs_NDIRECT d = 0")
      case True
      with r r' run Inr show ?thesis by (auto simp: then_do_def)
    next
      case False
      with r run Inr have "for_each_opt (process_block rec img) (map_uints img (addrs_NDIRECT d)) m1 = Some y"
        by (simp add: then_do_def)
      from blocks [OF this] r' Inr False show ?thesis
        by (auto simp: then_do_def)
    qed
  qed
qed

lemma traverse_dirs_drop_dots:
  assumes "traverse_dirs img d m = Some y"
  shows "traverse_dirs (without_dots img) d m = Some y"
  using assms
proof (induction rule: traverse_dirs.raw_induct [rotated 1, consumes 1])
  case (1 f img d m y)
  show ?case
  proof (cases "type d \<noteq> T_DIR")
    case True
    with "1.hyps" show ?thesis by (subst traverse_dirs.simps) simp
  next
    case False
    with "1.hyps" have "then_do (for_each_opt (process_block (f img) img) (addrs d) m)
             (\<lambda>m. let addr = addrs_NDIRECT d in
                if addr \<noteq> 0
                then for_each_opt (process_block (f img) img) (map_uints img addr) m
                else Some (Inr m)) = Some y"
      by simp
    then have "then_do (for_each_opt (process_block (traverse_dirs (without_dots img)) img) (addrs d) m)
             (\<lambda>m. let addr = addrs_NDIRECT d in
                if addr \<noteq> 0
                then for_each_opt (process_block (traverse_dirs (without_dots img)) img) (map_uints img addr) m
                else Some (Inr m)) = Some y"
      by (rule traverse_body_mono_Some [rotated]) (rule "1.IH")
    moreover have pb: "process_block rec (without_dots img) = process_block rec img" for rec
      by (intro ext) (rule process_block_without_dots)
    have "traverse_dirs (without_dots img) d m =
        then_do (for_each_opt (process_block (traverse_dirs (without_dots img)) (without_dots img)) (addrs d) m)
             (\<lambda>m. let addr = addrs_NDIRECT d in
                if addr \<noteq> 0
                then for_each_opt (process_block (traverse_dirs (without_dots img)) (without_dots img))
                       (map_uints (without_dots img) addr) m
                else Some (Inr m))"
      using False by (subst traverse_dirs.simps) simp
    ultimately show ?thesis
      unfolding pb without_dots_sel by simp
  qed
qed

lemma traverse_dirs_add_dots:
  assumes "traverse_dirs x d m = Some y"
  shows "\<forall>img. x = without_dots img \<longrightarrow> traverse_dirs img d m = Some y"
  using assms
proof (induction rule: traverse_dirs.raw_induct [rotated 1, consumes 1])
  case (1 f x d m y)
  show ?case
  proof (intro allI impI)
    fix img assume x: "x = without_dots img"
    have pb: "process_block rec (without_dots img) = process_block rec img" for rec
      by (intro ext) (rule process_block_without_dots)
    show "traverse_dirs img d m = Some y"
    proof (cases "type d \<noteq> T_DIR")
      case True
      with "1.hyps" show ?thesis by (subst traverse_dirs.simps) simp
    next
      case False
      with "1.hyps" have "then_do (for_each_opt (process_block (f x) x) (addrs d) m)
             (\<lambda>m. let addr = addrs_NDIRECT d in
                if addr \<noteq> 0
                then for_each_opt (process_block (f x) x) (map_uints x addr) m
                else Some (Inr m)) = Some y"
        by simp
      then have "then_do (for_each_opt (process_block (f x) img) (addrs d) m)
             (\<lambda>m. let addr = addrs_NDIRECT d in
                if addr \<noteq> 0
                then for_each_opt (process_block (f x) img) (map_uints img addr) m
                else Some (Inr m)) = Some y"
        unfolding x pb without_dots_sel .
      then have "then_do (for_each_opt (process_block (traverse_dirs img) img) (addrs d) m)
             (\<lambda>m. let addr = addrs_NDIRECT d in
                if addr \<noteq> 0
                then for_each_opt (process_block (traverse_dirs img) img) (map_uints img addr) m
                else Some (Inr m)) = Some y"
      proof (rule traverse_body_mono_Some [rotated])
        fix d' m' y' assume "f x d' m' = Some y'"
        from "1.IH" [OF this] x show "traverse_dirs img d' m' = Some y'" by blast
      qed
      with False show ?thesis
        by (subst traverse_dirs.simps) simp
    qed
  qed
qed

lemma traverse_dirs_without_dots:
  "traverse_dirs (without_dots img) d m = traverse_dirs img d m"
proof (cases "traverse_dirs img d m")
  case (Some y)
  with traverse_dirs_drop_dots [OF Some] show ?thesis by simp
next
  case None
  show ?thesis
  proof (cases "traverse_dirs (without_dots img) d m")
    case None': None
    with None show ?thesis by simp
  next
    case (Some y)
    from traverse_dirs_add_dots [OF Some] have "traverse_dirs img d m = Some y" by blast
    with None show ?thesis by simp
  qed
qed

lemma dir_chk_without_dots: "dir_chk (without_dots img) = dir_chk img"
proof -
  have a: "dir_chk_init (without_dots img) = dir_chk_init img"
    by (simp add: dir_chk_init_def without_dots_sel)
  have b: "dir_chk_sweep (without_dots img) = dir_chk_sweep img"
    by (intro ext) (simp add: dir_chk_sweep_def dir_chk_body_def [abs_def] without_dots_sel)
  show ?thesis
    unfolding dir_chk_def traverse_dirs_without_dots without_dots_sel a b ..
qed

text \<open>
  C8, as the specification states it, fails: \<^verbatim>\<open>dir_chk\<close> increments \<^verbatim>\<open>inmap[0]\<close> and
  \<^verbatim>\<open>inmap[1]\<close> once each, so the entry of the root inode starts at 1, not at 2.
\<close>

theorem dir_chk_init_counterexample:
  "dir_chk_init (init_img 8 4096 (blank_img sb_small)) = Inr [1, 1, 0, 0]
   \<and> [1, 1, 0, 0] ! 1 \<noteq> (2::int)"
proof -
  have "replicate 4 (0::int) = [0, 0, 0, 0]"
    by (simp add: numeral_eq_Suc)
  then show ?thesis
    by (simp add: dir_chk_init_def init_img_def blank_img_def sb_small_def Let_def)
qed

text \<open>
  C8, amended: before the traversal the entries of inode 0 and of the root inode 1 are
  each 1 and every other entry is 0 (for a table of at least two inodes). The traversal
  does not find the references of "." and "..": it passes over every entry with one of
  these names, in every block of every directory, so that a block, the traversal from any
  inode with any table, and the whole of \<^verbatim>\<open>dir_chk\<close> give the same result on the image
  and on the image with all these entries removed.
\<close>

theorem dir_chk_init_seed:
  assumes "2 \<le> unat (ninodes (sb img))"
  shows "(\<exists>inmap. dir_chk_init img = Inr inmap
      \<and> length inmap = unat (ninodes (sb img))
      \<and> inmap ! 0 = 1 \<and> inmap ! 1 = 1
      \<and> (\<forall>k. 2 \<le> k \<and> k < length inmap \<longrightarrow> inmap ! k = 0))
    \<and> (\<forall>rec addr m. process_block rec (without_dots img) addr m = process_block rec img addr m)
    \<and> (\<forall>d m. traverse_dirs (without_dots img) d m = traverse_dirs img d m)
    \<and> dir_chk (without_dots img) = dir_chk img"
proof -
  let ?m = "(replicate (unat (ninodes (sb img))) (0::int))[0 := 1, 1 := 1]"
  have "\<exists>inmap. dir_chk_init img = Inr inmap
      \<and> length inmap = unat (ninodes (sb img))
      \<and> inmap ! 0 = 1 \<and> inmap ! 1 = 1
      \<and> (\<forall>k. 2 \<le> k \<and> k < length inmap \<longrightarrow> inmap ! k = 0)"
    using assms by (intro exI [of _ ?m]) (simp add: dir_chk_init_eq)
  then show ?thesis
    using process_block_without_dots traverse_dirs_without_dots dir_chk_without_dots
    by blast
qed

theorem dir_chk_init_seed_witness:
  "2 \<le> unat (ninodes (sb (init_img 8 4096 tree_img)))
   \<and> dir_chk_init (init_img 8 4096 tree_img) = Inr [1, 1, 0, 0]
   \<and> \<lparr>inum = 1, name = ''.''\<rparr> \<in> set (map_dirents (init_img 8 4096 tree_img) 4)
   \<and> \<lparr>inum = 1, name = ''..''\<rparr> \<in> set (map_dirents (init_img 8 4096 tree_img) 4)
   \<and> map_dirents (without_dots (init_img 8 4096 tree_img)) 4 =
       [\<lparr>inum = 2, name = ''sub''\<rparr>, \<lparr>inum = 3, name = ''foo''\<rparr>] @ replicate 28 empty_dirent
   \<and> traverse_dirs (init_img 8 4096 tree_img) (inodeblks (init_img 8 4096 tree_img) 1) [1, 1, 0, 0]
       = Some (Inr [1, 1, 1, 1])
   \<and> traverse_dirs (without_dots (init_img 8 4096 tree_img))
       (inodeblks (init_img 8 4096 tree_img) 1) [1, 1, 0, 0] = Some (Inr [1, 1, 1, 1])"
proof -
  let ?img = "init_img 8 4096 tree_img"
  have h: "2 \<le> unat (ninodes (sb ?img))"
    by (simp add: tree_img_sel sb_small_def)
  from dir_chk_init_seed [OF h] obtain inmap where init: "dir_chk_init ?img = Inr inmap"
    and len: "length inmap = unat (ninodes (sb ?img))"
    and seed: "inmap ! 0 = 1" "inmap ! 1 = 1" "\<forall>k. 2 \<le> k \<and> k < length inmap \<longrightarrow> inmap ! k = 0"
    and trav: "\<forall>d m. traverse_dirs (without_dots ?img) d m = traverse_dirs ?img d m"
    by blast
  from len have len4: "length inmap = 4"
    by (simp add: tree_img_sel sb_small_def)
  have "inmap = [1, 1, 0, 0]"
  proof (rule nth_equalityI)
    show "length inmap = length [1, 1, 0, 0 :: int]"
      using len4 by simp
  next
    fix k assume "k < length inmap"
    with len4 consider "k = 0" | "k = 1" | "k = 2" | "k = 3" by linarith
    then show "inmap ! k = [1, 1, 0, 0] ! k"
      using seed len4 by cases simp_all
  qed
  with init have i: "dir_chk_init ?img = Inr [1, 1, 0, 0]"
    by simp
  have t: "traverse_dirs ?img (inodeblks ?img 1) [1, 1, 0, 0] = Some (Inr [1, 1, 1, 1])"
    using tree_traverse by (simp add: tree_img_sel)
  with trav have t': "traverse_dirs (without_dots ?img) (inodeblks ?img 1) [1, 1, 0, 0]
      = Some (Inr [1, 1, 1, 1])"
    by simp
  have "\<lparr>inum = 1, name = ''.''\<rparr> \<in> set (map_dirents ?img 4)
      \<and> \<lparr>inum = 1, name = ''..''\<rparr> \<in> set (map_dirents ?img 4)
      \<and> map_dirents (without_dots ?img) 4 =
          [\<lparr>inum = 2, name = ''sub''\<rparr>, \<lparr>inum = 3, name = ''foo''\<rparr>] @ replicate 28 empty_dirent"
    by (simp add: without_dots_sel tree_img_sel empty_dirent_def)
  with h i t t' show ?thesis by blast
qed

section \<open>Order of the bitmap and duplicate checks: C7\<close>

lemma block_refs_range:
  assumes sw: "main_sweep img = Inr ()" and a: "a \<in> set (map snd (block_refs img))"
  shows "unat a < unat (size' (sb img))"
proof -
  from a obtain i where i: "i < unat (ninodes (sb img))"
    and r: "a \<in> set (map snd (inode_refs img (inodeblks img i)))"
    by (force simp: block_refs_def)
  let ?in = "inodeblks img i"
  from r have nf: "type ?in \<noteq> T_FREE"
    by (auto simp: map_snd_inode_refs split: if_splits)
  from main_sweep_ok [OF sw i nf] main_body_checks_ok [of img i]
  have d: "check_direct img ?in = Inr ()" and ind: "check_indirect img ?in = Inr ()"
    by simp_all
  from r nf consider "a \<in> set (addrs ?in)" "a \<noteq> 0"
    | "addrs_NDIRECT ?in \<noteq> 0" "a \<in> set (map_uints img (addrs_NDIRECT ?in))" "a \<noteq> 0"
    by (auto simp: map_snd_inode_refs split: if_splits)
  then have "valid_addr img a"
  proof cases
    case 1
    with d show ?thesis by (auto simp: check_direct_iff split: if_splits)
  next
    case 2
    with ind show ?thesis by (auto simp: check_indirect_iff split: if_splits)
  qed
  then show ?thesis by (rule valid_addr_in_range)
qed

lemma chk_mark_bmp_length:
  "chk_mark_bmp bmp a cl = Inr cl' \<Longrightarrow> length cl' = length cl"
  by (auto simp: chk_mark_bmp_def split: if_splits)

lemma bmp_chk_error_after_sweep:
  assumes sw: "main_sweep img = Inr ()" and e: "bmp_chk img = Inl e"
  shows "e = Exit BitmapBlockNotInUse"
proof -
  from e have fw: "bmp_chk_forward img = Inl e"
    by (simp add: bmp_chk_forward_only split: sum.splits)
  have "\<exists>a\<in>set (map snd (block_refs img)). \<exists>s'. length s' = unat (size' (sb img))
      \<and> chk_mark_bmp (bitmapblks img) a s' = Inl e"
    using fw [unfolded bmp_chk_forward_refs]
    by (intro for_each_error_inv [where P = "\<lambda>s. length s = unat (size' (sb img))"])
      (auto dest: chk_mark_bmp_length)
  then obtain a s' where a: "a \<in> set (map snd (block_refs img))"
    and len: "length s' = unat (size' (sb img))"
    and step: "chk_mark_bmp (bitmapblks img) a s' = Inl e"
    by blast
  from block_refs_range [OF sw a] len step show ?thesis
    by (auto simp: chk_mark_bmp_def split: if_splits)
qed

lemma main_cases:
  "main IPB BPB m =
     (case main_sweep (init_img IPB BPB m) of Inl e \<Rightarrow> Some (Inl e) | Inr _ \<Rightarrow>
      case bmp_chk (init_img IPB BPB m) of Inl e \<Rightarrow> Some (Inl e) | Inr _ \<Rightarrow>
      case addrs_chk (init_img IPB BPB m) of Inl e \<Rightarrow> Some (Inl e) | Inr _ \<Rightarrow>
      dir_chk (init_img IPB BPB m))"
  by (simp add: main_def Let_def)

lemma inode_uses_init_img:
  "inode_uses (init_img IPB BPB m) in' a = inode_uses m in' a"
  by (simp add: inode_uses_def init_img_sel)


lemma both_img_sel:
  "sb (init_img 8 4096 both_img) = sb_small"
  "inodeblks (init_img 8 4096 both_img) 0 = free_inode"
  "inodeblks (init_img 8 4096 both_img) (Suc 0) = dir_inode_at 4"
  "inodeblks (init_img 8 4096 both_img) 2 = dir_inode_at 5"
  "inodeblks (init_img 8 4096 both_img) 3 = file_inode (5 # 6 # replicate 10 0) 0"
  "bitmapblks (init_img 8 4096 both_img) = (\<lambda>a. a < 6)"
  "map_uints (init_img 8 4096 both_img) = (\<lambda>a. replicate 128 0)"
  "map_dirents (init_img 8 4096 both_img) 4 =
     [\<lparr>inum = 1, name = ''.''\<rparr>, \<lparr>inum = 1, name = ''..''\<rparr>,
      \<lparr>inum = 2, name = ''sub''\<rparr>, \<lparr>inum = 3, name = ''foo''\<rparr>] @ replicate 28 empty_dirent"
  "map_dirents (init_img 8 4096 both_img) 5 =
     [\<lparr>inum = 2, name = ''.''\<rparr>, \<lparr>inum = 1, name = ''..''\<rparr>] @ replicate 30 empty_dirent"
  by (simp_all add: both_img_def init_img_def blank_img_def sb_small_def)

lemma both_img_checks:
  "j < 4 \<Longrightarrow> type (inodeblks (init_img 8 4096 both_img) j) \<noteq> T_FREE \<Longrightarrow>
   main_body_checks (init_img 8 4096 both_img) j = Inr ()"
proof -
  assume "j < 4" and nf: "type (inodeblks (init_img 8 4096 both_img) j) \<noteq> T_FREE"
  then consider "j = 0" | "j = 1" | "j = 2" | "j = 3" by linarith
  then show ?thesis
  proof cases
    case 1
    with nf show ?thesis by (simp add: both_img_sel free_inode_def)
  next
    case 2
    then show ?thesis
      by (simp add: both_img_sel sb_small_def main_body_checks_def dir_inode_at_def
          validate_type_def check_direct_iff check_indirect_iff valid_addr_def
          validate_dir_def process_entries_def process_entries_body_def process_entries_pad)
  next
    case 3
    then show ?thesis
      by (simp add: both_img_sel sb_small_def main_body_checks_def dir_inode_at_def
          validate_type_def check_direct_iff check_indirect_iff valid_addr_def
          validate_dir_def process_entries_def process_entries_body_def process_entries_pad)
  next
    case 4
    then show ?thesis
      by (simp add: both_img_sel sb_small_def main_body_checks_def file_inode_def
          validate_type_def check_direct_iff check_indirect_iff valid_addr_def)
  qed
qed

lemma skipped_img_sel:
  "sb (init_img 8 4096 skipped_img) = sb_small"
  "inodeblks (init_img 8 4096 skipped_img) 0 = free_inode"
  "inodeblks (init_img 8 4096 skipped_img) (Suc 0) = dir_inode_at 4"
  "inodeblks (init_img 8 4096 skipped_img) 2 = file_inode (6 # replicate 11 0) 0"
  "inodeblks (init_img 8 4096 skipped_img) 3 = file_inode (6 # replicate 11 0) 6"
  "bitmapblks (init_img 8 4096 skipped_img) = (\<lambda>a. a < 7)"
  "map_uints (init_img 8 4096 skipped_img) 6 = 9 # replicate 127 0"
  "map_dirents (init_img 8 4096 skipped_img) 4 =
     [\<lparr>inum = 1, name = ''.''\<rparr>, \<lparr>inum = 1, name = ''..''\<rparr>,
      \<lparr>inum = 2, name = ''f''\<rparr>, \<lparr>inum = 3, name = ''g''\<rparr>] @ replicate 28 empty_dirent"
  by (simp_all add: skipped_img_def init_img_def blank_img_def sb_small_def)

lemma skipped_main_sweep: "main_sweep (init_img 8 4096 skipped_img) = Inr ()"
  by (simp add: main_sweep_def for_each_unit_ok skipped_img_sel sb_small_def upt4
      main_body_def main_body_checks_def free_inode_def dir_inode_at_def file_inode_def
      validate_type_def check_direct_iff check_indirect_iff valid_addr_def
      validate_dir_def process_entries_def process_entries_body_def process_entries_pad
      validate_dir_loop_zeros
      chk_bmp_addr_split chk_indirect_def chk_indirect_body_def chk_indirect_zeros
      chk_bmp_addr_body_def marked_in_bmp_def CHK_BIT_def)

lemma skipped_block_refs:
  "block_refs (init_img 8 4096 skipped_img) =
     [(''direct'', 4), (''direct'', 6), (''direct'', 6), (''indirect'', 9)]"
  by (simp add: block_refs_def inode_refs_def skipped_img_sel sb_small_def upt4
      free_inode_def dir_inode_at_def file_inode_def)

lemma skipped_bmp_chk: "bmp_chk (init_img 8 4096 skipped_img) = Inl (Exit BitmapBlockNotInUse)"
  by (simp add: bmp_chk_forward_only bmp_chk_forward_refs skipped_block_refs skipped_img_sel
      sb_small_def chk_mark_bmp_def CHK_BIT_def)

lemma skipped_img_checks:
  "j < 4 \<Longrightarrow> type (inodeblks (init_img 8 4096 skipped_img) j) \<noteq> T_FREE \<Longrightarrow>
   main_body_checks (init_img 8 4096 skipped_img) j = Inr ()"
proof -
  assume "j < 4" and nf: "type (inodeblks (init_img 8 4096 skipped_img) j) \<noteq> T_FREE"
  then consider "j = 0" | "j = 1" | "j = 2" | "j = 3" by linarith
  then show ?thesis
  proof cases
    case 1
    with nf show ?thesis by (simp add: skipped_img_sel free_inode_def)
  next
    case 2
    then show ?thesis
      by (simp add: skipped_img_sel sb_small_def main_body_checks_def dir_inode_at_def
          validate_type_def check_direct_iff check_indirect_iff valid_addr_def
          validate_dir_def process_entries_def process_entries_body_def process_entries_pad)
  next
    case 3
    then show ?thesis
      by (simp add: skipped_img_sel sb_small_def main_body_checks_def file_inode_def
          validate_type_def check_direct_iff check_indirect_iff valid_addr_def)
  next
    case 4
    then show ?thesis
      by (simp add: skipped_img_sel sb_small_def main_body_checks_def file_inode_def
          validate_type_def check_direct_iff check_indirect_iff valid_addr_def)
  qed
qed

lemma for_each_first:
  assumes "for_each body xs (u::unit) = Inl e"
  shows "\<exists>k<length xs. body (xs ! k) () = Inl e \<and> (\<forall>j<k. body (xs ! j) () = Inr ())"
proof -
  from assms obtain x where f: "find (\<lambda>x. body x () \<noteq> Inr ()) xs = Some x" and x: "body x () = Inl e"
    unfolding for_each_unit by (cases "find (\<lambda>x. body x () \<noteq> Inr ()) xs") simp_all
  from f obtain k where "k < length xs" "x = xs ! k" "\<forall>j<k. \<not> body (xs ! j) () \<noteq> Inr ()"
    unfolding find_Some_iff by blast
  with x show ?thesis by auto
qed

text \<open>
  C7: let some non-free inode of the table use an address whose bitmap bit is clear. The
  run then stops in the inode-table sweep, with the message of the sweep, or else in the
  first loop of \<^verbatim>\<open>bmp_chk\<close>; both run before \<^verbatim>\<open>addrs_chk\<close>, so the run never ends with the
  duplicate-use message (nor with success), whether or not a block is used twice. When no
  inode fails another check of the sweep (type, addresses, root, directory format), the
  run ends with \<open>AddressNotInBitmap\<close> in the taxonomy of the specification. When the
  inodes up to the one that uses the unmarked address pass these other checks, and the
  address is in a direct slot, in the indirect slot, or in the indirect block of an inode
  whose indirect slot is not also one of its direct slots, the sweep itself stops with the
  message of the per-inode check, "address used by inode but marked free in bitmap"; in the
  remaining case \<^verbatim>\<open>chk_bmp_addr\<close> does not read the indirect block and the address is met
  by the first loop of \<^verbatim>\<open>bmp_chk\<close>.
\<close>

theorem unmarked_before_duplicate:
  assumes i: "i < unat (ninodes (sb mmap_img))"
    and nf: "type (inodeblks mmap_img i) \<noteq> T_FREE"
    and use: "inode_uses mmap_img (inodeblks mmap_img i) a"
    and clear: "\<not> bitmapblks mmap_img a"
  shows "(\<exists>e\<in>{BadInodeType, BadDirectAddress, BadIndirectAddress, MissingRoot, MalformedDirectory,
              AddressNotInBitmap, BitmapBlockNotInUse}.
            main IPB BPB mmap_img = Some (Inl (Exit e)))
    \<and> (\<forall>t. main IPB BPB mmap_img \<noteq> Some (Inl (Exit (DuplicateBlockUse t))))
    \<and> main IPB BPB mmap_img =
        (case main_sweep (init_img IPB BPB mmap_img) of
           Inl e \<Rightarrow> Some (Inl e)
         | Inr _ \<Rightarrow> Some (Inl (Exit BitmapBlockNotInUse)))
    \<and> ((\<forall>j<unat (ninodes (sb mmap_img)). type (inodeblks mmap_img j) \<noteq> T_FREE \<longrightarrow>
            main_body_checks (init_img IPB BPB mmap_img) j = Inr ())
        \<longrightarrow> (\<exists>e. main IPB BPB mmap_img = Some (Inl (Exit e)) \<and> spec_kind e = AddressNotInBitmap))
    \<and> ((\<forall>j\<le>i. type (inodeblks mmap_img j) \<noteq> T_FREE \<longrightarrow>
            main_body_checks (init_img IPB BPB mmap_img) j = Inr ())
        \<and> (a \<in> set (addrs (inodeblks mmap_img i)) \<or> a = addrs_NDIRECT (inodeblks mmap_img i)
            \<or> addrs_NDIRECT (inodeblks mmap_img i) \<notin> set (addrs (inodeblks mmap_img i)))
        \<longrightarrow> main IPB BPB mmap_img = Some (Inl (Exit AddressNotInBitmap)))"
proof -
  let ?img = "init_img IPB BPB mmap_img"
  let ?in = "inodeblks ?img i"
  have i': "i < unat (ninodes (sb ?img))" and nf': "type ?in \<noteq> T_FREE"
    and use': "inode_uses ?img ?in a" and clear': "\<not> bitmapblks ?img a"
    using i nf use clear by (simp_all add: init_img_sel inode_uses_init_img)
  have stop: "main_sweep ?img \<noteq> Inr () \<or> bmp_chk ?img \<noteq> Inr ()"
    using i' nf' use' clear' by (rule unmarked_stops)
  have run: "main IPB BPB mmap_img =
        (case main_sweep ?img of
           Inl e \<Rightarrow> Some (Inl e)
         | Inr _ \<Rightarrow> Some (Inl (Exit BitmapBlockNotInUse)))"
  proof (cases "main_sweep ?img")
    case (Inl e)
    then show ?thesis by (simp add: main_cases)
  next
    case (Inr u)
    then have sw: "main_sweep ?img = Inr ()" by simp
    with stop obtain e where e: "bmp_chk ?img = Inl e"
      by (cases "bmp_chk ?img") auto
    from bmp_chk_error_after_sweep [OF sw e] sw e show ?thesis
      by (simp add: main_cases)
  qed
  have one: "\<exists>e\<in>{BadInodeType, BadDirectAddress, BadIndirectAddress, MissingRoot, MalformedDirectory,
              AddressNotInBitmap, BitmapBlockNotInUse}.
            main IPB BPB mmap_img = Some (Inl (Exit e))"
  proof (cases "main_sweep ?img")
    case (Inl e)
    from main_sweep_error [OF Inl] Inl show ?thesis
      unfolding run by auto
  next
    case (Inr u)
    then show ?thesis unfolding run by simp
  qed
  then have two: "\<forall>t. main IPB BPB mmap_img \<noteq> Some (Inl (Exit (DuplicateBlockUse t)))"
    by auto
  have body: "main_body ?img j () = Inr () \<or> main_body ?img j () = Inl (Exit AddressNotInBitmap)"
    if "type (inodeblks mmap_img j) \<noteq> T_FREE \<longrightarrow> main_body_checks ?img j = Inr ()" for j
  proof (cases "type (inodeblks ?img j) = T_FREE")
    case True
    then show ?thesis by (simp add: main_body_def)
  next
    case False
    with that have c: "main_body_checks ?img j = Inr ()"
      by (simp add: init_img_sel)
    then have mb: "main_body ?img j () = chk_bmp_addr ?img (inodeblks ?img j)"
      using False by (simp add: main_body_def)
    from main_body_checks_ok [OF c] have "chk_bmp_addr ?img (inodeblks ?img j) \<noteq> Inl OutOfBounds"
      by (intro chk_bmp_addr_in_range) simp_all
    with chk_bmp_addr_error [of ?img "inodeblks ?img j"] show ?thesis
      unfolding mb by (cases "chk_bmp_addr ?img (inodeblks ?img j)") auto
  qed
  have four: "\<exists>e. main IPB BPB mmap_img = Some (Inl (Exit e)) \<and> spec_kind e = AddressNotInBitmap"
    if checks: "\<forall>j<unat (ninodes (sb mmap_img)). type (inodeblks mmap_img j) \<noteq> T_FREE \<longrightarrow>
            main_body_checks ?img j = Inr ()"
  proof (cases "main_sweep ?img")
    case (Inl e)
    from for_each_error [OF Inl [unfolded main_sweep_def]]
    obtain j u where j: "j \<in> set [0..<unat (ninodes (sb ?img))]" and "main_body ?img j u = Inl e"
      by blast
    then have "main_body ?img j () = Inl e" by simp
    moreover from j checks have "type (inodeblks mmap_img j) \<noteq> T_FREE \<longrightarrow> main_body_checks ?img j = Inr ()"
      by (simp add: init_img_sel)
    ultimately have "e = Exit AddressNotInBitmap"
      using body [of j] by auto
    with Inl show ?thesis
      unfolding run by (simp add: spec_kind_def)
  next
    case (Inr u)
    then show ?thesis
      unfolding run by (simp add: spec_kind_def)
  qed
  have five: "main IPB BPB mmap_img = Some (Inl (Exit AddressNotInBitmap))"
    if checks: "\<forall>j\<le>i. type (inodeblks mmap_img j) \<noteq> T_FREE \<longrightarrow> main_body_checks ?img j = Inr ()"
      and slot: "a \<in> set (addrs (inodeblks mmap_img i)) \<or> a = addrs_NDIRECT (inodeblks mmap_img i)
            \<or> addrs_NDIRECT (inodeblks mmap_img i) \<notin> set (addrs (inodeblks mmap_img i))"
  proof -
    have bad: "chk_bmp_addr ?img ?in \<noteq> Inr ()"
    proof
      assume "chk_bmp_addr ?img ?in = Inr ()"
      note ok = chk_bmp_addr_ok [OF this]
      from use' have nz: "a \<noteq> 0" by (simp add: inode_uses_def)
      from use' slot have "a \<in> set (addrs ?in) \<or> a = addrs_NDIRECT ?in
          \<or> (addrs_NDIRECT ?in \<noteq> 0 \<and> addrs_NDIRECT ?in \<notin> set (addrs ?in)
              \<and> a \<in> set (map_uints ?img (addrs_NDIRECT ?in)))"
        by (auto simp: inode_uses_def init_img_sel)
      with ok nz have "bitmapblks ?img a" by blast
      with clear' show False by simp
    qed
    have nok: "main_body ?img i () \<noteq> Inr ()"
      using bad nf' checks by (simp add: main_body_def init_img_sel)
    then have "main_sweep ?img \<noteq> Inr ()"
      using i' unfolding main_sweep_def for_each_unit_ok by auto
    then obtain e where e: "main_sweep ?img = Inl e"
      by (cases "main_sweep ?img") auto
    from for_each_first [OF e [unfolded main_sweep_def]]
    obtain k where k: "k < unat (ninodes (sb ?img))" and ke: "main_body ?img k () = Inl e"
      and before: "\<forall>j<k. main_body ?img j () = Inr ()"
      by auto
    have "k \<le> i"
    proof (rule ccontr)
      assume "\<not> k \<le> i"
      then have "main_body ?img i () = Inr ()" using before by simp
      with nok show False by simp
    qed
    with checks have "type (inodeblks mmap_img k) \<noteq> T_FREE \<longrightarrow> main_body_checks ?img k = Inr ()"
      by simp
    from body [OF this] ke have "e = Exit AddressNotInBitmap" by auto
    with e show ?thesis unfolding run by simp
  qed
  from one two run four five show ?thesis by blast
qed

theorem unmarked_before_duplicate_witness:
  "3 < unat (ninodes (sb both_img))
   \<and> type (inodeblks both_img 3) \<noteq> T_FREE
   \<and> inode_uses both_img (inodeblks both_img 3) 6
   \<and> \<not> bitmapblks both_img 6
   \<and> \<not> distinct (map snd (block_refs (init_img 8 4096 both_img)))
   \<and> main 8 4096 both_img = Some (Inl (Exit AddressNotInBitmap))
   \<and> 3 < unat (ninodes (sb skipped_img))
   \<and> type (inodeblks skipped_img 3) \<noteq> T_FREE
   \<and> inode_uses skipped_img (inodeblks skipped_img 3) 9
   \<and> \<not> bitmapblks skipped_img 9
   \<and> \<not> distinct (map snd (block_refs (init_img 8 4096 skipped_img)))
   \<and> main_sweep (init_img 8 4096 skipped_img) = Inr ()
   \<and> bmp_chk (init_img 8 4096 skipped_img) = Inl (Exit BitmapBlockNotInUse)
   \<and> main 8 4096 skipped_img = Some (Inl (Exit BitmapBlockNotInUse))
   \<and> spec_kind BitmapBlockNotInUse = AddressNotInBitmap"
proof -
  have h: "3 < unat (ninodes (sb both_img))" "type (inodeblks both_img 3) \<noteq> T_FREE"
    "inode_uses both_img (inodeblks both_img 3) 6" "\<not> bitmapblks both_img 6"
    by (simp_all add: both_img_def blank_img_def sb_small_def file_inode_def inode_uses_def)
  have checks: "\<forall>j\<le>3. type (inodeblks both_img j) \<noteq> T_FREE \<longrightarrow>
      main_body_checks (init_img 8 4096 both_img) j = Inr ()"
    using both_img_checks by (simp add: init_img_sel)
  have slot: "6 \<in> set (addrs (inodeblks both_img 3))"
    by (simp add: both_img_def blank_img_def file_inode_def)
  have dup: "\<not> distinct (map snd (block_refs (init_img 8 4096 both_img)))"
    by (simp add: block_refs_def inode_refs_def both_img_sel sb_small_def upt4
        free_inode_def dir_inode_at_def file_inode_def)
  from unmarked_before_duplicate [OF h, of 8 4096] checks slot
  have both: "main 8 4096 both_img = Some (Inl (Exit AddressNotInBitmap))" by blast
  have h': "3 < unat (ninodes (sb skipped_img))" "type (inodeblks skipped_img 3) \<noteq> T_FREE"
    "inode_uses skipped_img (inodeblks skipped_img 3) 9" "\<not> bitmapblks skipped_img 9"
    by (simp_all add: skipped_img_def blank_img_def sb_small_def file_inode_def inode_uses_def)
  have checks': "\<forall>j<unat (ninodes (sb skipped_img)). type (inodeblks skipped_img j) \<noteq> T_FREE \<longrightarrow>
      main_body_checks (init_img 8 4096 skipped_img) j = Inr ()"
    using skipped_img_checks by (simp add: skipped_img_def blank_img_def sb_small_def init_img_sel)
  from unmarked_before_duplicate [OF h', of 8 4096] checks'
  obtain e where e: "main 8 4096 skipped_img = Some (Inl (Exit e))"
    and kind: "spec_kind e = AddressNotInBitmap"
    and run: "main 8 4096 skipped_img =
        (case main_sweep (init_img 8 4096 skipped_img) of
           Inl e \<Rightarrow> Some (Inl e)
         | Inr _ \<Rightarrow> Some (Inl (Exit BitmapBlockNotInUse)))"
    by blast
  from run have skipped: "main 8 4096 skipped_img = Some (Inl (Exit BitmapBlockNotInUse))"
    by (simp add: skipped_main_sweep)
  with e kind have "spec_kind BitmapBlockNotInUse = AddressNotInBitmap"
    by simp
  moreover have "\<not> distinct (map snd (block_refs (init_img 8 4096 skipped_img)))"
    by (simp add: skipped_block_refs)
  ultimately show ?thesis
    using h both dup h' skipped skipped_main_sweep skipped_bmp_chk by blast
qed

section \<open>Addresses below the first data block: C10\<close>

lemma upt8: "[0..<8] = [0, 1, 2, 3, 4, 5, 6, 7]" and upt28: "[2..<8] = [2, 3, 4, 5, 6, 7]"
  by (simp_all add: upt_rec)

lemma below_indirect_img_sel:
  "sb (init_img 8 4096 below_indirect_img) = sb_eight"
  "firstblk (init_img 8 4096 below_indirect_img) = 5"
  "inodeblks (init_img 8 4096 below_indirect_img) 0 = free_inode"
  "inodeblks (init_img 8 4096 below_indirect_img) (Suc 0) = dir_inode_at 5"
  "inodeblks (init_img 8 4096 below_indirect_img) 2 = file_inode (replicate 12 0) 3"
  "inodeblks (init_img 8 4096 below_indirect_img) 3 = free_inode"
  "inodeblks (init_img 8 4096 below_indirect_img) 4 = free_inode"
  "inodeblks (init_img 8 4096 below_indirect_img) 5 = free_inode"
  "inodeblks (init_img 8 4096 below_indirect_img) 6 = free_inode"
  "inodeblks (init_img 8 4096 below_indirect_img) 7 = free_inode"
  "bitmapblks (init_img 8 4096 below_indirect_img) = (\<lambda>a. a < 6)"
  "map_uints (init_img 8 4096 below_indirect_img) = (\<lambda>a. replicate 128 0)"
  "map_dirents (init_img 8 4096 below_indirect_img) 5 =
     [\<lparr>inum = 1, name = ''.''\<rparr>, \<lparr>inum = 1, name = ''..''\<rparr>, \<lparr>inum = 2, name = ''f''\<rparr>]
     @ replicate 29 empty_dirent"
  by (simp_all add: below_indirect_img_def init_img_def blank_img_def sb_eight_def)

lemma below_indirect_main_sweep: "main_sweep (init_img 8 4096 below_indirect_img) = Inr ()"
  by (simp add: main_sweep_def for_each_unit_ok below_indirect_img_sel sb_eight_def upt8
      main_body_def main_body_checks_def free_inode_def dir_inode_at_def file_inode_def
      validate_type_def check_direct_iff check_indirect_iff valid_addr_def
      validate_dir_def process_entries_def process_entries_body_def process_entries_pad
      validate_dir_loop_zeros
      chk_bmp_addr_split chk_indirect_def chk_indirect_body_def chk_indirect_zeros
      chk_bmp_addr_body_def marked_in_bmp_def CHK_BIT_def)

lemma below_indirect_block_refs:
  "block_refs (init_img 8 4096 below_indirect_img) = [(''direct'', 5)]"
  by (simp add: block_refs_def inode_refs_def below_indirect_img_sel sb_eight_def upt8
      free_inode_def dir_inode_at_def file_inode_def)

lemma below_indirect_bmp_chk: "bmp_chk (init_img 8 4096 below_indirect_img) = Inr ()"
  by (simp add: bmp_chk_forward_only bmp_chk_forward_refs below_indirect_block_refs
      below_indirect_img_sel sb_eight_def chk_mark_bmp_def CHK_BIT_def)

lemma below_indirect_addrs_chk: "addrs_chk (init_img 8 4096 below_indirect_img) = Inr ()"
  using addrs_chk_cases [of "init_img 8 4096 below_indirect_img"]
  by (simp add: below_indirect_block_refs below_indirect_img_sel sb_eight_def)

lemma below_indirect_traverse:
  "traverse_dirs (init_img 8 4096 below_indirect_img) (dir_inode_at 5) [1, 1, 0, 0, 0, 0, 0, 0]
     = Some (Inr [1, 1, 1, 0, 0, 0, 0, 0])"
  by (simp add: traverse_dirs.simps process_block_def then_do_def below_indirect_img_sel
      dir_inode_at_def file_inode_def for_each_opt_pad process_block_zeros)

lemma below_indirect_dir_chk: "dir_chk (init_img 8 4096 below_indirect_img) = Some (Inr ())"
proof -
  have "replicate 8 (0::int) = [0, 0, 0, 0, 0, 0, 0, 0]"
    by (simp add: numeral_eq_Suc)
  then have init: "dir_chk_init (init_img 8 4096 below_indirect_img) = Inr [1, 1, 0, 0, 0, 0, 0, 0]"
    by (simp add: dir_chk_init_def below_indirect_img_sel sb_eight_def Let_def)
  have "dir_chk_sweep (init_img 8 4096 below_indirect_img) [1, 1, 1, 0, 0, 0, 0, 0] = Inr ()"
    by (simp add: dir_chk_sweep_def for_each_unit_ok below_indirect_img_sel sb_eight_def upt28
        dir_chk_body_def chk_in_use_def chk_in_free_def chk_ref_cnt_def chk_dir_once_def
        free_inode_def file_inode_def)
  with init below_indirect_traverse show ?thesis
    by (simp add: dir_chk_def below_indirect_img_sel then_do_def)
qed

lemma below_direct_img_sel:
  "sb (init_img 8 4096 below_direct_img) = sb_eight"
  "firstblk (init_img 8 4096 below_direct_img) = 5"
  "inodeblks (init_img 8 4096 below_direct_img) 0 = free_inode"
  "inodeblks (init_img 8 4096 below_direct_img) (Suc 0) = dir_inode_at 5"
  "inodeblks (init_img 8 4096 below_direct_img) 2 = file_inode (3 # replicate 11 0) 0"
  "inodeblks (init_img 8 4096 below_direct_img) 3 = free_inode"
  "inodeblks (init_img 8 4096 below_direct_img) 4 = free_inode"
  "inodeblks (init_img 8 4096 below_direct_img) 5 = free_inode"
  "inodeblks (init_img 8 4096 below_direct_img) 6 = free_inode"
  "inodeblks (init_img 8 4096 below_direct_img) 7 = free_inode"
  "bitmapblks (init_img 8 4096 below_direct_img) = (\<lambda>a. a < 6)"
  "map_uints (init_img 8 4096 below_direct_img) = (\<lambda>a. replicate 128 0)"
  "map_dirents (init_img 8 4096 below_direct_img) 5 =
     [\<lparr>inum = 1, name = ''.''\<rparr>, \<lparr>inum = 1, name = ''..''\<rparr>, \<lparr>inum = 2, name = ''f''\<rparr>]
     @ replicate 29 empty_dirent"
  by (simp_all add: below_direct_img_def init_img_def blank_img_def sb_eight_def)

lemma below_direct_main_sweep: "main_sweep (init_img 8 4096 below_direct_img) = Inr ()"
  by (simp add: main_sweep_def for_each_unit_ok below_direct_img_sel sb_eight_def upt8
      main_body_def main_body_checks_def free_inode_def dir_inode_at_def file_inode_def
      validate_type_def check_direct_iff check_indirect_iff valid_addr_def
      validate_dir_def process_entries_def process_entries_body_def process_entries_pad
      validate_dir_loop_zeros
      chk_bmp_addr_split chk_indirect_def chk_indirect_body_def chk_indirect_zeros
      chk_bmp_addr_body_def marked_in_bmp_def CHK_BIT_def)

lemma below_direct_block_refs:
  "block_refs (init_img 8 4096 below_direct_img) = [(''direct'', 5), (''direct'', 3)]"
  by (simp add: block_refs_def inode_refs_def below_direct_img_sel sb_eight_def upt8
      free_inode_def dir_inode_at_def file_inode_def)

lemma below_direct_bmp_chk: "bmp_chk (init_img 8 4096 below_direct_img) = Inr ()"
  by (simp add: bmp_chk_forward_only bmp_chk_forward_refs below_direct_block_refs
      below_direct_img_sel sb_eight_def chk_mark_bmp_def CHK_BIT_def)

lemma blk_usage_chk_wraps:
  assumes nz: "addr \<noteq> 0" and below: "addr < startblk"
  shows "unat (addr - startblk) = 2 ^ 32 + unat addr - unat startblk"
    and "blk_usage_chk img usage_counts startblk t addr = Inl OutOfBounds
         \<longleftrightarrow> length usage_counts \<le> 2 ^ 32 + unat addr - unat startblk"
proof -
  have lt: "unat addr < unat startblk"
    using below by (simp add: word_less_nat_alt)
  show idx: "unat (addr - startblk) = 2 ^ 32 + unat addr - unat startblk"
    using lt by (simp add: unat_sub_if_size word_size)
  show "blk_usage_chk img usage_counts startblk t addr = Inl OutOfBounds
         \<longleftrightarrow> length usage_counts \<le> 2 ^ 32 + unat addr - unat startblk"
    using nz unfolding idx [symmetric]
    by (auto simp: blk_usage_chk_def Let_def)
qed

text \<open>
  C10, as stated, fails for an address that an inode references only in its indirect
  slot: \<^verbatim>\<open>addrs_chk\<close> hands the direct slots and the words of the indirect block to
  \<^verbatim>\<open>blk_usage_chk\<close>, never the indirect slot itself, so no index is computed for it. In
  \<open>below_indirect_img\<close> the file inode 2 has block 3 in its indirect slot; block 3 lies
  below the first data block 5 and passes \<open>valid_addr\<close>, its words are zero, the
  duplicate-use check returns normally, and the whole run ends with success.
\<close>

theorem blk_usage_chk_wrap_counterexample:
  "type (inodeblks below_indirect_img 2) \<noteq> T_FREE
   \<and> addrs_NDIRECT (inodeblks below_indirect_img 2) = 3
   \<and> (0::u32) < 3 \<and> 3 < firstblk (init_img 8 4096 below_indirect_img)
   \<and> valid_addr (init_img 8 4096 below_indirect_img) 3
   \<and> addrs_chk (init_img 8 4096 below_indirect_img) = Inr ()
   \<and> main 8 4096 below_indirect_img = Some (Inr ())"
proof -
  have "type (inodeblks below_indirect_img 2) \<noteq> T_FREE
      \<and> addrs_NDIRECT (inodeblks below_indirect_img 2) = 3"
    by (simp add: below_indirect_img_def blank_img_def file_inode_def)
  moreover have "3 < firstblk (init_img 8 4096 below_indirect_img)
      \<and> valid_addr (init_img 8 4096 below_indirect_img) 3"
    by (simp add: below_indirect_img_sel valid_addr_def sb_eight_def)
  moreover have "main 8 4096 below_indirect_img = Some (Inr ())"
    by (simp add: main_cases below_indirect_main_sweep below_indirect_bmp_chk
        below_indirect_addrs_chk below_indirect_dir_chk)
  ultimately show ?thesis
    using below_indirect_addrs_chk by simp
qed

text \<open>
  C10, amended: a reference of a non-free inode, in a direct slot or in its indirect
  block, to a non-zero address \<open>a\<close> below \<open>firstblk\<close> makes \<^verbatim>\<open>blk_usage_chk\<close> index the array
  \<^verbatim>\<open>usage_counts\<close> of \<open>nblocks\<close> entries at \<open>a - firstblk\<close> computed in \<^verbatim>\<open>uint\<close>, which is
  \<open>2\<^sup>3\<^sup>2 + a - firstblk\<close>; the access is outside of the array exactly when \<open>nblocks\<close> does
  not exceed this index, whatever the counts are. That is so whenever
  \<open>firstblk + nblocks \<le> 2\<^sup>3\<^sup>2\<close>, as in every image whose data blocks
  \<open>firstblk, \<dots>, firstblk + nblocks - 1\<close> have numbers below \<open>size\<close>: then \<^verbatim>\<open>addrs_chk\<close>
  stops at an earlier reference or, when it reaches this one, with the access out of
  range; it never passes, and no duplicate is reported for this reference. Such an address
  passes \<open>valid_addr\<close> when it is below \<open>size\<close>.
\<close>

theorem blk_usage_chk_below_firstblk:
  assumes ref: "block_refs img = pre @ (t, a) # post"
    and below: "a < firstblk img"
  shows "unat (a - firstblk img) = 2 ^ 32 + unat a - unat (firstblk img)
    \<and> (\<forall>uc. length uc = unat (nblocks (sb img)) \<longrightarrow>
          (blk_usage_chk img uc (firstblk img) t a = Inl OutOfBounds
           \<longleftrightarrow> unat (nblocks (sb img)) \<le> 2 ^ 32 + unat a - unat (firstblk img)))
    \<and> (unat (firstblk img) + unat (nblocks (sb img)) \<le> 2 ^ 32 \<longrightarrow>
          (\<forall>uc. length uc = unat (nblocks (sb img)) \<longrightarrow>
              blk_usage_chk img uc (firstblk img) t a = Inl OutOfBounds)
          \<and> addrs_chk img =
              (case for_each (\<lambda>ta uc. blk_usage_chk img uc (firstblk img) (fst ta) (snd ta)) pre
                      (replicate (unat (nblocks (sb img))) 0) of
                 Inl e \<Rightarrow> Inl e | Inr uc \<Rightarrow> Inl OutOfBounds)
          \<and> addrs_chk img \<noteq> Inr ())
    \<and> (a < size' (sb img) \<longrightarrow> valid_addr img a)"
proof -
  have "(t, a) \<in> set (block_refs img)"
    by (simp add: ref)
  then have nz: "a \<noteq> 0"
    by (rule block_refs_nonzero)
  note index = blk_usage_chk_wraps [OF nz below]
  have pos: "0 < unat a"
    using nz by (simp add: unat_gt_0)
  have lt: "unat a < unat (firstblk img)"
    using below by (simp add: word_less_nat_alt)
  have exact: "\<forall>uc. length uc = unat (nblocks (sb img)) \<longrightarrow>
          (blk_usage_chk img uc (firstblk img) t a = Inl OutOfBounds
           \<longleftrightarrow> unat (nblocks (sb img)) \<le> 2 ^ 32 + unat a - unat (firstblk img))"
    using index(2) [of img _ t] by simp
  have bounded: "(\<forall>uc. length uc = unat (nblocks (sb img)) \<longrightarrow>
              blk_usage_chk img uc (firstblk img) t a = Inl OutOfBounds)
          \<and> addrs_chk img =
              (case for_each (\<lambda>ta uc. blk_usage_chk img uc (firstblk img) (fst ta) (snd ta)) pre
                      (replicate (unat (nblocks (sb img))) 0) of
                 Inl e \<Rightarrow> Inl e | Inr uc \<Rightarrow> Inl OutOfBounds)
          \<and> addrs_chk img \<noteq> Inr ()"
    if nowrap: "unat (firstblk img) + unat (nblocks (sb img)) \<le> 2 ^ 32"
  proof -
    have oob: "blk_usage_chk img uc (firstblk img) t a = Inl OutOfBounds"
      if "length uc = unat (nblocks (sb img))" for uc
      using index(2) [of img uc t] that nowrap pos lt by simp
    have run: "addrs_chk img =
        (case for_each (\<lambda>ta uc. blk_usage_chk img uc (firstblk img) (fst ta) (snd ta)) pre
                (replicate (unat (nblocks (sb img))) 0) of
           Inl e \<Rightarrow> Inl e | Inr uc \<Rightarrow> Inl OutOfBounds)"
    proof (cases "for_each (\<lambda>ta uc. blk_usage_chk img uc (firstblk img) (fst ta) (snd ta)) pre
                (replicate (unat (nblocks (sb img))) 0)")
      case (Inl e)
      then show ?thesis
        by (simp add: addrs_chk_refs ref for_each_append)
    next
      case (Inr uc)
      from blk_usage_scan_length [OF Inr] have "length uc = unat (nblocks (sb img))"
        by simp
      from oob [OF this] Inr show ?thesis
        by (simp add: addrs_chk_refs ref for_each_append)
    qed
    have "addrs_chk img \<noteq> Inr ()"
      unfolding run by (simp split: sum.splits)
    with oob run show ?thesis by blast
  qed
  have "a < size' (sb img) \<longrightarrow> valid_addr img a"
    using nz by (simp add: valid_addr_def word_neq_0_conv)
  with index(1) exact bounded show ?thesis
    by blast
qed

theorem blk_usage_chk_below_firstblk_witness:
  "block_refs (init_img 8 4096 below_direct_img) = [(''direct'', 5)] @ (''direct'', 3) # []
   \<and> 3 < firstblk (init_img 8 4096 below_direct_img)
   \<and> unat (firstblk (init_img 8 4096 below_direct_img))
       + unat (nblocks (sb (init_img 8 4096 below_direct_img))) \<le> 2 ^ 32
   \<and> unat (3 - firstblk (init_img 8 4096 below_direct_img)) = 4294967294
   \<and> valid_addr (init_img 8 4096 below_direct_img) 3
   \<and> addrs_chk (init_img 8 4096 below_direct_img) = Inl OutOfBounds
   \<and> main 8 4096 below_direct_img = Some (Inl OutOfBounds)"
proof -
  let ?img = "init_img 8 4096 below_direct_img"
  have fb: "firstblk ?img = 5" and nb: "nblocks (sb ?img) = 11" and sz: "size' (sb ?img) = 16"
    by (simp_all add: below_direct_img_sel sb_eight_def)
  have h1: "block_refs ?img = [(''direct'', 5)] @ (''direct'', 3) # []"
    by (simp add: below_direct_block_refs)
  have h2: "3 < firstblk ?img"
    by (simp add: fb)
  have h3: "unat (firstblk ?img) + unat (nblocks (sb ?img)) \<le> 2 ^ 32"
    by (simp add: fb nb)
  have eleven: "replicate 11 (0::u32) = [0, 0, 0, 0, 0, 0, 0, 0, 0, 0, 0]"
    by (simp add: numeral_eq_Suc)
  have pre: "for_each (\<lambda>ta uc. blk_usage_chk ?img uc (firstblk ?img) (fst ta) (snd ta))
        [(''direct'', 5)] (replicate (unat (nblocks (sb ?img))) 0) = Inr [1, 0, 0, 0, 0, 0, 0, 0, 0, 0, 0]"
    unfolding fb nb by (simp add: eleven blk_usage_chk_def)
  from blk_usage_chk_below_firstblk [OF h1 h2] h3 pre
  have idx: "unat (3 - firstblk ?img) = 4294967294"
    and v: "valid_addr ?img 3"
    and oob: "addrs_chk ?img = Inl OutOfBounds"
    by (simp_all add: fb sz)
  from oob have "main 8 4096 below_direct_img = Some (Inl OutOfBounds)"
    by (simp add: main_cases below_direct_main_sweep below_direct_bmp_chk)
  with h1 h2 h3 idx v oob show ?thesis by blast
qed

section \<open>The backward bitmap check: C4\<close>

lemma block_refs_spec:
  "set (map snd (block_refs img)) \<subseteq> set (spec_block_refs img)"
proof -
  have "set (map snd (inode_refs img in')) \<subseteq> set (spec_inode_refs img in')" for in'
    by (auto simp: map_snd_inode_refs spec_inode_refs_def)
  then show ?thesis
    unfolding block_refs_def spec_block_refs_def by (fastforce simp del: set_upt)
qed

lemma spec_block_refs_init_img:
  "spec_block_refs (init_img IPB BPB m) = spec_block_refs m"
  by (simp add: spec_block_refs_def spec_inode_refs_def init_img_sel cong: if_cong)

text \<open>
  C4: let some block below \<open>size\<close> have its bitmap bit set while no inode references it
  (in a direct slot, in the indirect slot or in an indirect block). When the first loop of
  \<^verbatim>\<open>bmp_chk\<close> passes, the array \<^verbatim>\<open>chklist\<close> it leaves has no mark for this block, so the
  last loop meets the discrepancy; the last loop returns normally all the same. So
  \<^verbatim>\<open>bmp_chk\<close> stops exactly when its first loop stops, and the verdict of the run is that
  of the run without the last loop: after \<^verbatim>\<open>bmp_chk\<close> the run goes on with \<^verbatim>\<open>addrs_chk\<close>
  and \<^verbatim>\<open>dir_chk\<close>.
\<close>

theorem bmp_chk_backward_ignored:
  assumes below: "unat a < unat (size' (sb mmap_img))"
    and marked: "bitmapblks mmap_img a"
    and unused: "a \<notin> set (spec_block_refs mmap_img)"
  shows "(\<forall>chklist. bmp_chk_forward (init_img IPB BPB mmap_img) = Inr chklist \<longrightarrow>
            CHK_BIT (bitmapblks (init_img IPB BPB mmap_img)) a \<and> \<not> chklist ! unat a
            \<and> bmp_chk_final (init_img IPB BPB mmap_img) chklist = Inr ())
    \<and> bmp_chk (init_img IPB BPB mmap_img) =
        (case bmp_chk_forward (init_img IPB BPB mmap_img) of
           Inl e \<Rightarrow> Inl e | Inr chklist \<Rightarrow> Inr ())
    \<and> main IPB BPB mmap_img =
        (case main_sweep (init_img IPB BPB mmap_img) of Inl e \<Rightarrow> Some (Inl e) | Inr _ \<Rightarrow>
         case bmp_chk_forward (init_img IPB BPB mmap_img) of Inl e \<Rightarrow> Some (Inl e) | Inr _ \<Rightarrow>
         case addrs_chk (init_img IPB BPB mmap_img) of Inl e \<Rightarrow> Some (Inl e) | Inr _ \<Rightarrow>
         dir_chk (init_img IPB BPB mmap_img))"
proof -
  let ?img = "init_img IPB BPB mmap_img"
  have one: "CHK_BIT (bitmapblks ?img) a \<and> \<not> chklist ! unat a \<and> bmp_chk_final ?img chklist = Inr ()"
    if fw: "bmp_chk_forward ?img = Inr chklist" for chklist
  proof -
    from bmp_chk_forward_ok [OF fw]
    have mf: "marks_from (snd ` set (block_refs ?img)) chklist"
      and len: "length chklist = unat (size' (sb ?img))"
      by simp_all
    have "\<not> chklist ! unat a"
    proof
      assume "chklist ! unat a"
      moreover have "unat a < length chklist"
        using len below by (simp add: init_img_sel)
      ultimately obtain b where b: "b \<in> snd ` set (block_refs ?img)" and "unat b = unat a"
        using mf unfolding marks_from_def by blast
      then have "b = a" by (simp add: word_unat_eq_iff)
      with b block_refs_spec [of ?img] have "a \<in> set (spec_block_refs ?img)"
        by auto
      with unused show False
        by (simp add: spec_block_refs_init_img)
    qed
    moreover have "bmp_chk_final ?img chklist = Inr ()"
      using len by (rule bmp_chk_final_ok)
    ultimately show ?thesis
      using marked by (simp add: CHK_BIT_def init_img_sel)
  qed
  have two: "bmp_chk ?img = (case bmp_chk_forward ?img of Inl e \<Rightarrow> Inl e | Inr chklist \<Rightarrow> Inr ())"
    by (rule bmp_chk_forward_only)
  have three: "main IPB BPB mmap_img =
        (case main_sweep ?img of Inl e \<Rightarrow> Some (Inl e) | Inr _ \<Rightarrow>
         case bmp_chk_forward ?img of Inl e \<Rightarrow> Some (Inl e) | Inr _ \<Rightarrow>
         case addrs_chk ?img of Inl e \<Rightarrow> Some (Inl e) | Inr _ \<Rightarrow>
         dir_chk ?img)"
    by (simp add: main_cases two split: sum.splits)
  from one two three show ?thesis by blast
qed

theorem bmp_chk_backward_ignored_witness:
  "unat (7::u32) < unat (size' (sb tree_img))
   \<and> bitmapblks tree_img 7
   \<and> 7 \<notin> set (spec_block_refs tree_img)
   \<and> (\<exists>chklist. bmp_chk_forward (init_img 8 4096 tree_img) = Inr chklist \<and> \<not> chklist ! 7)
   \<and> bmp_chk (init_img 8 4096 tree_img) = Inr ()
   \<and> main 8 4096 tree_img = Some (Inr ())"
proof -
  have h: "unat (7::u32) < unat (size' (sb tree_img))" "bitmapblks tree_img 7"
    by (simp_all add: tree_img_def blank_img_def sb_small_def)
  have "spec_block_refs tree_img = [4, 5, 6]"
    by (simp add: spec_block_refs_def spec_inode_refs_def tree_img_def blank_img_def sb_small_def
        upt4 free_inode_def dir_inode_at_def file_inode_def)
  then have u: "7 \<notin> set (spec_block_refs tree_img)"
    by simp
  from tree_bmp_chk obtain chklist where fw: "bmp_chk_forward (init_img 8 4096 tree_img) = Inr chklist"
    by (auto simp: bmp_chk_forward_only split: sum.splits)
  with bmp_chk_backward_ignored [OF h u, of 8 4096] have "\<not> chklist ! 7"
    by simp
  with fw h u tree_bmp_chk tree_main show ?thesis by blast
qed

end
